theory Spec2Isabelle
  imports Complex_Main "HOL-Library.FSet" "HOL-Library.Char_ord" "HOL-Library.List_Lexorder"
    "HOL-Library.Sublist" "HOL-Library.Product_Lexorder"
begin

section \<open>Errors\<close>

text \<open>
  Every \<^verbatim>\<open>raise\<close> of the source is a value. The constructors are the Python
  exception classes; the string is the fixed head of the message (the part before
  any formatted argument), which tells the raising sites apart.
\<close>

datatype error =
    RuntimeError string
  | ValueError string
  | KeyError string
  | TypeError string
  | AttributeError string
  | NameError string
  | ZeroDivisionError
  | OverflowError string

section \<open>Python strings and integers\<close>

text \<open>
  The strings of the model are ASCII strings, and the string functions are Python's on
  ASCII strings. \<open>is_space\<close> holds of the characters for which \<^verbatim>\<open>str.isspace\<close> does (the
  ones \<^verbatim>\<open>str.strip()\<close> removes and the class \<^verbatim>\<open>\s\<close> matches). \<open>str_int\<close> is the decimal
  rendering of \<^verbatim>\<open>str(n)\<close>, and \<open>rsplit1 sep s\<close> is \<^verbatim>\<open>s.rsplit(sep, 1)\<close>.

  The conversion \<^verbatim>\<open>int(s)\<close> is a parameter \<open>int_of\<close> of every function that calls it
  (\<open>None\<close> is its \<^verbatim>\<open>ValueError\<close>), so that nothing proved depends on which literals Python
  accepts. \<open>py_int\<close> is its reading on ASCII strings, used to run the model on examples:
  whitespace around the literal (for \<^verbatim>\<open>int\<close> that is space, tab, line feed, vertical tab,
  form feed and carriage return only), one optional sign, digits with single underscores
  between them, and no more than \<open>max_str_digits\<close> digits.
\<close>

definition is_space :: "char \<Rightarrow> bool" where
  "is_space c = (c \<in> set [CHR '' '', CHR 0x09, CHR 0x0A, CHR 0x0B, CHR 0x0C, CHR 0x0D,
                           CHR 0x1C, CHR 0x1D, CHR 0x1E, CHR 0x1F])"

definition is_int_space :: "char \<Rightarrow> bool" where
  "is_int_space c = (c \<in> set [CHR '' '', CHR 0x09, CHR 0x0A, CHR 0x0B, CHR 0x0C, CHR 0x0D])"

definition max_str_digits :: nat where
  "max_str_digits = 4300"

definition strip :: "string \<Rightarrow> string" where
  "strip s = rev (dropWhile is_space (rev (dropWhile is_space s)))"

definition is_digit :: "char \<Rightarrow> bool" where
  "is_digit c = (CHR ''0'' \<le> c \<and> c \<le> CHR ''9'')"

definition digit_val :: "char \<Rightarrow> nat" where
  "digit_val c = of_char c - 48"

definition digit_char :: "nat \<Rightarrow> char" where
  "digit_char d = ''0123456789'' ! d"

fun str_nat :: "nat \<Rightarrow> string" where
  "str_nat n = (if n < 10 then [digit_char n] else str_nat (n div 10) @ [digit_char (n mod 10)])"

declare str_nat.simps [simp del]

definition str_int :: "int \<Rightarrow> string" where
  "str_int i = (if i < 0 then CHR ''-'' # str_nat (nat (- i)) else str_nat (nat i))"

fun parse_digits :: "nat \<Rightarrow> string \<Rightarrow> nat option" where
  "parse_digits acc [] = Some acc"
| "parse_digits acc (c # cs) =
     (if is_digit c then parse_digits (10 * acc + digit_val c) cs
      else if c = CHR ''_'' then
        (case cs of
           [] \<Rightarrow> None
         | d # ds \<Rightarrow> if is_digit d then parse_digits acc cs else None)
      else None)"

definition py_int_unsigned :: "string \<Rightarrow> nat option" where
  "py_int_unsigned s =
     (case s of [] \<Rightarrow> None | c # cs \<Rightarrow> if is_digit c then parse_digits 0 s else None)"

definition py_int :: "string \<Rightarrow> int option" where
  "py_int s =
     (case rev (dropWhile is_int_space (rev (dropWhile is_int_space s))) of
        [] \<Rightarrow> None
      | c # cs \<Rightarrow>
          if length (filter is_digit (c # cs)) > max_str_digits then None
          else if c = CHR ''-'' then map_option (\<lambda>n. - int n) (py_int_unsigned cs)
          else if c = CHR ''+'' then map_option int (py_int_unsigned cs)
          else map_option int (py_int_unsigned (c # cs)))"

definition rsplit1 :: "char \<Rightarrow> string \<Rightarrow> string list" where
  "rsplit1 sep s =
     (if sep \<in> set s
      then [rev (tl (dropWhile (\<lambda>c. c \<noteq> sep) (rev s))), rev (takeWhile (\<lambda>c. c \<noteq> sep) (rev s))]
      else [s])"

text \<open>\<open>str\<close> of an integer is injective and made of digits after an optional sign.\<close>

lemma digit_char_val: "d < 10 \<Longrightarrow> digit_val (digit_char d) = d"
proof -
  assume "d < 10"
  then have "d \<in> set [0, 1, 2, 3, 4, 5, 6, 7, 8, 9]" by auto
  then show ?thesis
    by (auto simp: digit_val_def digit_char_def)
qed

lemma digit_char_is_digit: "d < 10 \<Longrightarrow> is_digit (digit_char d)"
proof -
  assume "d < 10"
  then have "d \<in> set [0, 1, 2, 3, 4, 5, 6, 7, 8, 9]" by auto
  then show ?thesis
    by (auto simp: is_digit_def digit_char_def)
qed

definition digits_value :: "string \<Rightarrow> nat" where
  "digits_value s = foldl (\<lambda>a c. 10 * a + digit_val c) 0 s"

lemma digits_value_str_nat: "digits_value (str_nat n) = n"
proof (induction n rule: str_nat.induct)
  case (1 n)
  show ?case
  proof (cases "n < 10")
    case True
    then show ?thesis
      by (subst str_nat.simps) (simp add: digits_value_def digit_char_val)
  next
    case False
    with 1 have ih: "digits_value (str_nat (n div 10)) = n div 10" by simp
    have "digits_value (str_nat n) = 10 * digits_value (str_nat (n div 10)) + digit_val (digit_char (n mod 10))"
      using False by (subst str_nat.simps) (simp add: digits_value_def)
    with ih show ?thesis by (simp add: digit_char_val)
  qed
qed

lemma str_nat_inj: "str_nat m = str_nat n \<Longrightarrow> m = n"
  by (metis digits_value_str_nat)

lemma str_nat_digits: "c \<in> set (str_nat n) \<Longrightarrow> is_digit c"
proof (induction n rule: str_nat.induct)
  case (1 n)
  show ?case
  proof (cases "n < 10")
    case True
    with 1(2) show ?thesis
      by (subst (asm) str_nat.simps) (simp add: digit_char_is_digit)
  next
    case False
    with 1 show ?thesis
      by (subst (asm) (2) str_nat.simps) (auto simp: digit_char_is_digit)
  qed
qed

lemma str_nat_nonempty: "str_nat n \<noteq> []"
  by (subst str_nat.simps) simp

lemma str_int_inj: "str_int i = str_int j \<Longrightarrow> i = j"
proof -
  assume eq: "str_int i = str_int j"
  have nd: "\<not> is_digit CHR ''-''" by (simp add: is_digit_def)
  have hd_nat: "hd (str_nat n) \<noteq> CHR ''-''" for n
    using str_nat_digits [of "hd (str_nat n)" n] str_nat_nonempty [of n] nd
    by (metis hd_in_set)
  show ?thesis
  proof (cases "i < 0")
    case True
    show ?thesis
    proof (cases "j < 0")
      case True
      with \<open>i < 0\<close> eq have "nat (- i) = nat (- j)"
        by (simp add: str_int_def str_nat_inj)
      with True \<open>i < 0\<close> show ?thesis by simp
    next
      case False
      with \<open>i < 0\<close> eq have "CHR ''-'' # str_nat (nat (- i)) = str_nat (nat j)"
        by (simp add: str_int_def)
      then have "hd (str_nat (nat j)) = CHR ''-''"
        by (metis list.sel(1))
      with hd_nat show ?thesis by blast
    qed
  next
    case False
    show ?thesis
    proof (cases "j < 0")
      case True
      with False eq have "str_nat (nat i) = CHR ''-'' # str_nat (nat (- j))"
        by (simp add: str_int_def)
      then have "hd (str_nat (nat i)) = CHR ''-''"
        by (metis list.sel(1))
      with hd_nat show ?thesis by blast
    next
      case jn: False
      with False eq have "nat i = nat j"
        by (simp add: str_int_def str_nat_inj)
      with False jn show ?thesis by simp
    qed
  qed
qed

section \<open>variant.py: reciprocal overlap\<close>

text \<open>
  \<^verbatim>\<open>reciprocal_overlap(begin_a, end_a, begin_b, end_b)\<close>. Coordinates are Python
  integers; \<^verbatim>\<open>/\<close> is true division, modelled in the reals. A zero-length interval
  with a non-negative overlap divides by zero, which Python raises.
\<close>

definition reciprocal_overlap :: "int \<Rightarrow> int \<Rightarrow> int \<Rightarrow> int \<Rightarrow> error + real" where
  "reciprocal_overlap begin_a end_a begin_b end_b =
     (let overlap = min end_a end_b - max begin_a begin_b in
      if overlap < 0 then Inr 0
      else if end_a - begin_a = 0 \<or> end_b - begin_b = 0 then Inl ZeroDivisionError
      else Inr (min (real_of_int overlap / real_of_int (end_a - begin_a))
                    (real_of_int overlap / real_of_int (end_b - begin_b))))"

section \<open>variant.py: ID versioning\<close>

text \<open>
  \<^verbatim>\<open>version_id(id_col, existing_id_set=None)\<close>. The column is a list of strings, the
  optional existing set a finite set. \<open>id_count\<close> is the \<^verbatim>\<open>collections.Counter\<close>: a
  member of the existing set counts once, every entry of the column once per
  occurrence. \<open>name_tokens\<close> is the \<^verbatim>\<open>rsplit\<close> of a duplicated name with the start
  value of \<^verbatim>\<open>name_version\<close>. \<open>next_free_version\<close> is the \<^verbatim>\<open>while new_name in id_set\<close> loop
  with the statement before it and returns the final \<^verbatim>\<open>name_version\<close>; \<open>version_loop\<close> is
  the \<^verbatim>\<open>for\<close> loop over the column, threading \<^verbatim>\<open>id_set\<close>.

  Two builtins are parameters: \<open>int_of\<close> is \<^verbatim>\<open>int(s)\<close>, and \<open>str_ok n\<close> says that \<^verbatim>\<open>str(n)\<close>
  returns (Python refuses to print an integer of more digits than its configured
  limit, with a \<^verbatim>\<open>ValueError\<close> that \<^verbatim>\<open>version_id\<close> does not catch; with no limit \<open>str_ok\<close>
  is true everywhere).
\<close>

definition versioned_name :: "string \<Rightarrow> int \<Rightarrow> string" where
  "versioned_name base name_version = base @ ''.'' @ str_int name_version"

lemma versioned_name_inj: "versioned_name b i = versioned_name b j \<Longrightarrow> i = j"
  by (simp add: versioned_name_def str_int_inj)

function next_free_version :: "(int \<Rightarrow> bool) \<Rightarrow> string fset \<Rightarrow> string \<Rightarrow> int \<Rightarrow> int option" where
  "next_free_version str_ok id_set base name_version =
     (if \<not> str_ok name_version then None
      else if versioned_name base name_version |\<in>| id_set
      then next_free_version str_ok id_set base (name_version + 1)
      else Some name_version)"
  by pat_completeness auto
termination
proof (relation "measure (\<lambda>(str_ok, id_set, base, v).
    fcard (ffilter (\<lambda>s. \<exists>j\<ge>v. s = versioned_name base j) id_set))")
  show "wf (measure (\<lambda>(str_ok, id_set, base, v).
    fcard (ffilter (\<lambda>s. \<exists>j\<ge>v. s = versioned_name base j) id_set)))"
    by simp
next
  fix str_ok :: "int \<Rightarrow> bool" and id_set :: "string fset" and base :: string
    and name_version :: int
  assume mem: "versioned_name base name_version |\<in>| id_set"
  let ?A = "ffilter (\<lambda>s. \<exists>j\<ge>name_version + 1. s = versioned_name base j) id_set"
  let ?B = "ffilter (\<lambda>s. \<exists>j\<ge>name_version. s = versioned_name base j) id_set"
  have in_B: "versioned_name base name_version |\<in>| ?B"
  proof -
    have "\<exists>j\<ge>name_version. versioned_name base name_version = versioned_name base j"
      by (rule exI [of _ name_version]) simp
    with mem show ?thesis by simp
  qed
  have not_in_A: "versioned_name base name_version |\<notin>| ?A"
  proof
    assume "versioned_name base name_version |\<in>| ?A"
    then obtain j where "name_version + 1 \<le> j"
      "versioned_name base name_version = versioned_name base j"
      by auto
    with versioned_name_inj [of base name_version j] show False by simp
  qed
  have sub: "?A |\<subseteq>| ?B"
  proof
    fix s assume "s |\<in>| ?A"
    then obtain j where s: "s |\<in>| id_set" "name_version + 1 \<le> j" "s = versioned_name base j"
      by auto
    then have "\<exists>j\<ge>name_version. s = versioned_name base j"
      by (intro exI [of _ j]) simp
    with s(1) show "s |\<in>| ?B" by simp
  qed
  from sub in_B not_in_A have "?A |\<subset>| ?B" by blast
  then have "fcard ?A < fcard ?B"
    by (rule pfsubset_fcard_mono)
  then show "((str_ok, id_set, base, name_version + 1), (str_ok, id_set, base, name_version))
      \<in> measure (\<lambda>(str_ok, id_set, base, v).
          fcard (ffilter (\<lambda>s. \<exists>j\<ge>v. s = versioned_name base j) id_set))"
    by simp
qed

declare next_free_version.simps [simp del]

definition id_count :: "string fset option \<Rightarrow> string list \<Rightarrow> string \<Rightarrow> nat" where
  "id_count existing_id_set id_col val =
     (case existing_id_set of
        None \<Rightarrow> 0
      | Some existing \<Rightarrow> if val |\<in>| existing then 1 else 0)
     + count_list id_col val"

definition dup_set :: "string fset option \<Rightarrow> string list \<Rightarrow> string fset" where
  "dup_set existing_id_set id_col =
     ffilter (\<lambda>val. 1 < id_count existing_id_set id_col val)
       ((case existing_id_set of None \<Rightarrow> {||} | Some existing \<Rightarrow> existing)
        |\<union>| fset_of_list id_col)"

definition name_tokens :: "(string \<Rightarrow> int option) \<Rightarrow> string \<Rightarrow> error + string \<times> int" where
  "name_tokens int_of name =
     (case rsplit1 CHR ''.'' name of
        [base] \<Rightarrow> Inr (base, 1)
      | base # tail # _ \<Rightarrow>
          (case int_of tail of
             None \<Rightarrow> Inl (RuntimeError ''Error de-duplicating variant ID field'')
           | Some n \<Rightarrow> Inr (base, n + 1))
      | [] \<Rightarrow> Inr ([], 1))"

fun version_loop ::
  "(string \<Rightarrow> int option) \<Rightarrow> (int \<Rightarrow> bool) \<Rightarrow> string fset \<Rightarrow> string fset \<Rightarrow> string list
   \<Rightarrow> error + string list" where
  "version_loop int_of str_ok dups id_set [] = Inr []"
| "version_loop int_of str_ok dups id_set (name # rest) =
     (if name |\<in>| dups then
        (case name_tokens int_of name of
           Inl e \<Rightarrow> Inl e
         | Inr (base, name_version) \<Rightarrow>
             (case next_free_version str_ok id_set base name_version of
                None \<Rightarrow> Inl (ValueError ''Exceeds the limit for integer string conversion'')
              | Some final_version \<Rightarrow>
                  (let new_name = versioned_name base final_version in
                   case version_loop int_of str_ok dups (finsert new_name id_set) rest of
                     Inl e \<Rightarrow> Inl e
                   | Inr out \<Rightarrow> Inr (new_name # out))))
      else
        (case version_loop int_of str_ok dups id_set rest of
           Inl e \<Rightarrow> Inl e
         | Inr out \<Rightarrow> Inr (name # out)))"

definition version_id ::
  "(string \<Rightarrow> int option) \<Rightarrow> (int \<Rightarrow> bool) \<Rightarrow> string list \<Rightarrow> string fset option
   \<Rightarrow> error + string list" where
  "version_id int_of str_ok id_col existing_id_set =
     (let dups = dup_set existing_id_set id_col in
      if dups = {||} then Inr id_col
      else version_loop int_of str_ok dups
             ((fset_of_list id_col |-| dups)
              |\<union>| (case existing_id_set of None \<Rightarrow> {||} | Some existing \<Rightarrow> existing))
             id_col)"

text \<open>
  Two sets used to state what the loop does at index \<open>i\<close>: the new names given to
  duplicated entries before \<open>i\<close>, and every name \<^verbatim>\<open>id_set\<close> holds when the loop reaches
  \<open>i\<close> (the names that occur once in the column and the output written so far).
\<close>

definition renamed_before :: "string fset \<Rightarrow> string list \<Rightarrow> string list \<Rightarrow> nat \<Rightarrow> string set" where
  "renamed_before dups col out i = {out ! j | j. j < i \<and> col ! j |\<in>| dups}"

definition names_present :: "string list \<Rightarrow> string list \<Rightarrow> nat \<Rightarrow> string set" where
  "names_present id_col out i = {x \<in> set id_col. count_list id_col x = 1} \<union> set (take i out)"

section \<open>Tables\<close>

text \<open>
  A table (a pandas \<^verbatim>\<open>DataFrame\<close>) is the list of its column names and the list of its
  rows. The rows of the variant tables are records with one typed field per column the
  merger reads (the schema of the input BED files: \<^verbatim>\<open>#CHROM\<close>, \<^verbatim>\<open>ID\<close>, \<^verbatim>\<open>SVTYPE\<close>, \<^verbatim>\<open>REF\<close>,
  \<^verbatim>\<open>ALT\<close> and \<^verbatim>\<open>SEQ\<close> strings, \<^verbatim>\<open>POS\<close>, \<^verbatim>\<open>END\<close> and \<^verbatim>\<open>SVLEN\<close> integers); every other column
  is carried in \<open>OTHER\<close> by name. Whether a column is present is decided by \<open>columns\<close>
  alone: the field of an absent column is never read, and wherever the source reads a
  column that may be absent the model tests \<open>columns\<close> and raises as pandas does.
\<close>

record variant =
  CHROM :: string
  POS :: int
  END :: int
  ID :: string
  SVTYPE :: string
  SVLEN :: int
  REF :: string
  ALT :: string
  SEQ :: string
  OTHER :: "(string \<times> string) list"

record 'r dataframe =
  columns :: "string list"
  rows :: "'r list"

text \<open>
  The integer columns are 64-bit: arithmetic on them wraps around.
\<close>

definition int64 :: "int \<Rightarrow> int" where
  "int64 x = (x + 2 ^ 63) mod 2 ^ 64 - 2 ^ 63"


subsection \<open>Sorting, de-duplication, grouping\<close>

text \<open>
  \<^verbatim>\<open>sort_values\<close> on several columns is a stable sort on the tuple of the columns,
  compared lexicographically; \<open>sort_key\<close> is the stable insertion sort of the list
  library. A descending column enters the tuple negated, and pandas puts \<^verbatim>\<open>NaN\<close> last
  whatever the direction: \<open>nan_last\<close>. A categorical column is ordered by the position
  of the value in the list of categories, values outside the categories being \<^verbatim>\<open>NaN\<close>.
  \<^verbatim>\<open>drop_duplicates(keep='first')\<close> walks the rows and keeps a row when its key has not
  been seen. \<^verbatim>\<open>groupby\<close> yields the groups in the order of their keys, each with its rows
  in table order.
\<close>

definition sort_values :: "('r \<Rightarrow> 'k::linorder) \<Rightarrow> 'r list \<Rightarrow> 'r list" where
  "sort_values key df = sort_key key df"






definition groupby :: "('r \<Rightarrow> 'k::linorder) \<Rightarrow> 'r list \<Rightarrow> ('k \<times> 'r list) list" where
  "groupby key df = map (\<lambda>k. (k, filter (\<lambda>r. key r = k) df)) (sort (remdups (map key df)))"

fun sequence_results :: "(error + 'a) list \<Rightarrow> error + 'a list" where
  "sequence_results [] = Inr []"
| "sequence_results (x # xs) =
     (case x of
        Inl e \<Rightarrow> Inl e
      | Inr v \<Rightarrow> (case sequence_results xs of Inl e \<Rightarrow> Inl e | Inr vs \<Rightarrow> Inr (v # vs)))"

definition join :: "string \<Rightarrow> string list \<Rightarrow> string" where
  "join sep xs = (case xs of [] \<Rightarrow> [] | x # rest \<Rightarrow> foldl (\<lambda>acc y. acc @ sep @ y) x rest)"

subsection \<open>Number formatting\<close>

text \<open>
  \<^verbatim>\<open>'{:.<d>f}'.format(x)\<close>: \<open>x\<close> rounded to \<open>d\<close> decimals, ties to the even neighbour,
  and printed with exactly \<open>d\<close> decimals; \<^verbatim>\<open>NaN\<close> prints as \<^verbatim>\<open>nan\<close>. Floats are modelled by
  the real numbers they stand for. \<open>float_of_string\<close> reads such a fixed-point literal
  back (\<^verbatim>\<open>astype(np.float32)\<close> on a string column; the rounding to 32 bits is not
  modelled).
\<close>

definition round_half_even :: "real \<Rightarrow> int" where
  "round_half_even x =
     (let f = \<lfloor>x\<rfloor>; r = x - of_int f in
      if r < 1 / 2 then f else if 1 / 2 < r then f + 1 else if even f then f else f + 1)"

definition zero_pad :: "nat \<Rightarrow> string \<Rightarrow> string" where
  "zero_pad d s = replicate (d - length s) CHR ''0'' @ s"

definition format_fixed :: "nat \<Rightarrow> real \<Rightarrow> string" where
  "format_fixed d x =
     (let n = nat (round_half_even (\<bar>x\<bar> * 10 ^ d));
          body = str_nat (n div 10 ^ d)
                 @ (if d = 0 then [] else ''.'' @ zero_pad d (str_nat (n mod 10 ^ d)))
      in if x < 0 then CHR ''-'' # body else body)"

definition format_f :: "nat \<Rightarrow> real option \<Rightarrow> string" where
  "format_f d v = (case v of None \<Rightarrow> ''nan'' | Some x \<Rightarrow> format_fixed d x)"

definition digits_only :: "string \<Rightarrow> bool" where
  "digits_only s = list_all is_digit s"

definition unsigned_float_of_string :: "string \<Rightarrow> real option" where
  "unsigned_float_of_string s =
     (let whole = takeWhile (\<lambda>c. c \<noteq> CHR ''.'') s;
          frac = drop 1 (dropWhile (\<lambda>c. c \<noteq> CHR ''.'') s)
      in if digits_only whole \<and> digits_only frac \<and> (whole \<noteq> [] \<or> frac \<noteq> [])
         then Some (real (digits_value whole) + real (digits_value frac) / 10 ^ length frac)
         else None)"

definition float_of_string :: "string \<Rightarrow> real option" where
  "float_of_string s =
     (case strip s of
        [] \<Rightarrow> None
      | c # cs \<Rightarrow>
          if c = CHR ''-'' then map_option uminus (unsigned_float_of_string cs)
          else if c = CHR ''+'' then unsigned_float_of_string cs
          else unsigned_float_of_string (c # cs))"

section \<open>svmerge.py: the exact matcher\<close>

text \<open>
  \<^verbatim>\<open>get_support_table_exact(df, df_next, match_seq, match_ref, match_alt)\<close>. A flag given as
  \<^verbatim>\<open>None\<close> is inferred from the columns of the two tables. A row of the returned support
  table has the columns \<^verbatim>\<open>ID\<close>, \<^verbatim>\<open>TARGET_ID\<close>, \<^verbatim>\<open>OFFSET\<close>, \<^verbatim>\<open>RO\<close>, \<^verbatim>\<open>SZRO\<close>, \<^verbatim>\<open>OFFSZ\<close> and
  \<^verbatim>\<open>MATCH\<close> (\<open>None\<close> is \<^verbatim>\<open>NaN\<close>). The \<^verbatim>\<open>ID\<close> columns are read when the first match is
  written, and nowhere before.
\<close>

record support_row =
  ID_source :: string
  TARGET_ID :: string
  OFFSET :: real
  RO :: real
  SZRO :: real
  OFFSZ :: real
  MATCH :: "real option"








section \<open>svmerge.py: the parameter parser\<close>

text \<open>
  \<^verbatim>\<open>str.split(sep)\<close>, \<^verbatim>\<open>str.lower()\<close>, and \<^verbatim>\<open>re.split('\s*=\s*', s, 1)\<close>: the leftmost match
  of the pattern starts at the whitespace run in front of the first \<^verbatim>\<open>=\<close> and takes the
  whitespace behind it, so the split yields the text before that run and the text after
  the whitespace that follows the \<^verbatim>\<open>=\<close>, or the string alone when it has no \<^verbatim>\<open>=\<close>.
\<close>

fun split_on :: "char \<Rightarrow> string \<Rightarrow> string list" where
  "split_on sep [] = [[]]"
| "split_on sep (c # cs) =
     (if c = sep then [] # split_on sep cs
      else (case split_on sep cs of [] \<Rightarrow> [[c]] | x # xs \<Rightarrow> (c # x) # xs))"

definition lower_char :: "char \<Rightarrow> char" where
  "lower_char c =
     (case map_of (zip ''ABCDEFGHIJKLMNOPQRSTUVWXYZ'' ''abcdefghijklmnopqrstuvwxyz'') c of
        None \<Rightarrow> c
      | Some l \<Rightarrow> l)"

definition lower :: "string \<Rightarrow> string" where
  "lower s = map lower_char s"

definition upper_char :: "char \<Rightarrow> char" where
  "upper_char c =
     (case map_of (zip ''abcdefghijklmnopqrstuvwxyz'' ''ABCDEFGHIJKLMNOPQRSTUVWXYZ'') c of
        None \<Rightarrow> c
      | Some u \<Rightarrow> u)"

definition upper :: "string \<Rightarrow> string" where
  "upper s = map upper_char s"

definition re_split_eq :: "string \<Rightarrow> string list" where
  "re_split_eq s =
     (if CHR ''='' \<in> set s
      then [rev (dropWhile is_space (rev (takeWhile (\<lambda>c. c \<noteq> CHR ''='') s))),
            dropWhile is_space (drop 1 (dropWhile (\<lambda>c. c \<noteq> CHR ''='') s))]
      else [s])"

text \<open>
  The alignment parameters are a dictionary from field name to value, copied from the
  defaults of \<^verbatim>\<open>ALIGN_PARAM_FIELD_LIST\<close>. A value is a float, an integer or \<^verbatim>\<open>None\<close>.
  \<^verbatim>\<open>float(tok)\<close> and \<^verbatim>\<open>int(tok)\<close> are parameters of the model (\<open>float_of\<close> and \<open>int_of\<close>,
  \<open>None\<close> for the \<^verbatim>\<open>ValueError\<close>): the grammar of Python's numeric literals plays no part
  in what is proved here. A float is the real number it denotes, an infinity or
  \<^verbatim>\<open>nan\<close>; every comparison with \<^verbatim>\<open>nan\<close> is false.
\<close>

datatype py_float = Finite real | PosInf | NegInf | NaN

fun float_less :: "py_float \<Rightarrow> py_float \<Rightarrow> bool" where
  "float_less (Finite x) (Finite y) = (x < y)"
| "float_less (Finite x) PosInf = True"
| "float_less NegInf (Finite y) = True"
| "float_less NegInf PosInf = True"
| "float_less a b = False"

definition float_le :: "py_float \<Rightarrow> py_float \<Rightarrow> bool" where
  "float_le a b = (float_less a b \<or> (a = b \<and> a \<noteq> NaN))"

datatype param_value = FloatValue py_float | IntValue int | NoneValue

datatype param_type = float_type | int_type

definition ALIGN_PARAM_FIELD_LIST :: "(string \<times> param_value \<times> param_type) list" where
  "ALIGN_PARAM_FIELD_LIST =
     [(''SCORE-PROP'', FloatValue (Finite (8 / 10)), float_type),
      (''MATCH'', FloatValue (Finite 2), float_type),
      (''MISMATCH'', FloatValue (Finite (- 1)), float_type),
      (''GAP-OPEN'', FloatValue (Finite (- 5)), float_type),
      (''GAP-EXTEND'', FloatValue (Finite (- (1 / 2))), float_type),
      (''MAP-LIMIT'', IntValue 20000, int_type),
      (''JACCARD-KMER'', IntValue 9, int_type)]"

definition ALIGN_PARAM_KEY :: "nat \<Rightarrow> string" where
  "ALIGN_PARAM_KEY i = fst (ALIGN_PARAM_FIELD_LIST ! i)"

definition ALIGN_PARAM_DEFAULT :: "string \<rightharpoonup> param_value" where
  "ALIGN_PARAM_DEFAULT = map_of (map (\<lambda>(name, default, ty). (name, default)) ALIGN_PARAM_FIELD_LIST)"

definition ALIGN_PARAM_TYPE :: "string \<rightharpoonup> param_type" where
  "ALIGN_PARAM_TYPE = map_of (map (\<lambda>(name, default, ty). (name, ty)) ALIGN_PARAM_FIELD_LIST)"

text \<open>
  The aligner class \<^verbatim>\<open>svpoplib.aligner.ScoreAligner\<close> is not part of the sources at hand;
  only its constructor call is. An aligner is the record of the four arguments it is
  built from.
\<close>

record score_aligner =
  aligner_match :: "param_value option"
  aligner_mismatch :: "param_value option"
  aligner_gap_open :: "param_value option"
  aligner_gap_extend :: "param_value option"

record param_set =
  ro_min :: "real option"
  szro_min :: "real option"
  offset_max :: "int option"
  match_ref :: bool
  match_alt :: bool
  expand_base :: bool
  match_seq :: bool
  aligner :: "score_aligner option"
  align_match_prop :: "param_value option"
  align_param :: "(string \<rightharpoonup> param_value) option"
  read_seq :: bool

definition initial_param_set :: param_set where
  "initial_param_set =
     \<lparr>ro_min = None, szro_min = None, offset_max = None,
      match_ref = False, match_alt = False, expand_base = False,
      match_seq = False, aligner = None, align_match_prop = None, align_param = None,
      read_seq = False\<rparr>"

text \<open>
  The test \<^verbatim>\<open>tok.lower in {'na', 'unlimited'}\<close> of the source names the method \<^verbatim>\<open>tok.lower\<close>
  without calling it. A bound method object is equal to no string, so the membership
  test is false for every token.
\<close>

definition lower_method_in :: "string \<Rightarrow> string list \<Rightarrow> bool" where
  "lower_method_in tok names = False"

definition convert_token ::
  "(string \<Rightarrow> py_float option) \<Rightarrow> (string \<Rightarrow> int option) \<Rightarrow> param_type \<Rightarrow> string
   \<Rightarrow> param_value option" where
  "convert_token float_of int_of ty tok =
     (case ty of
        float_type \<Rightarrow> map_option FloatValue (float_of tok)
      | int_type \<Rightarrow> map_option IntValue (int_of tok))"

text \<open>
  The number a converted token is compared as: an integer compares with a float by its
  value. (\<open>NoneValue\<close> is never compared; it is given \<^verbatim>\<open>nan\<close>.)
\<close>

definition value_of :: "param_value \<Rightarrow> py_float" where
  "value_of v = (case v of FloatValue x \<Rightarrow> x | IntValue n \<Rightarrow> Finite (real_of_int n) | NoneValue \<Rightarrow> NaN)"

text \<open>One round of the loop over the comma-separated fields of \<^verbatim>\<open>match\<close>.\<close>

definition match_field ::
  "(string \<Rightarrow> py_float option) \<Rightarrow> (string \<Rightarrow> int option) \<Rightarrow> nat \<Rightarrow> string
   \<Rightarrow> (string \<rightharpoonup> param_value) \<Rightarrow> error + (string \<rightharpoonup> param_value)" where
  "match_field float_of int_of i field params =
     (let tok = strip field;
          field_name = ALIGN_PARAM_KEY i
      in
      case ALIGN_PARAM_TYPE field_name of
        None \<Rightarrow> Inl (KeyError field_name)
      | Some param_type \<Rightarrow>
          if tok = [] then Inr params
          else if field_name = ''MAP-LIMIT'' \<and> lower_method_in tok [''na'', ''unlimited'']
          then Inr (params(field_name \<mapsto> NoneValue))
          else
            (case convert_token float_of int_of param_type tok of
               None \<Rightarrow> Inl (RuntimeError ''Alignment parameter in match type mismatch'')
             | Some tok_val \<Rightarrow>
                 if field_name = ''SCORE-PROP''
                    \<and> (float_le (value_of tok_val) (Finite 0) \<or> float_less (Finite 1) (value_of tok_val))
                 then Inl (RuntimeError ''Alignment parameter in match must be between 0 (exclusive) and 1 (inclusive)'')
                 else if field_name \<in> set [''MATCH'', ''JACCARD-KMER'']
                         \<and> float_le (value_of tok_val) (Finite 0)
                 then Inl (RuntimeError ''Alignment parameter in match must be positive'')
                 else if field_name \<in> set [''MISMATCH'', ''GAP-OPEN'', ''GAP-EXTEND'']
                         \<and> float_less (Finite 0) (value_of tok_val)
                 then Inl (RuntimeError ''Alignment parameter in match must not be positive'')
                 else if field_name = ''MAP-LIMIT'' \<and> float_less (value_of tok_val) (Finite 0)
                 then Inl (RuntimeError ''Alignment parameter in match must not be negative'')
                 else Inr (params(field_name \<mapsto> tok_val))))"

fun match_fields ::
  "(string \<Rightarrow> py_float option) \<Rightarrow> (string \<Rightarrow> int option) \<Rightarrow> nat \<Rightarrow> string list
   \<Rightarrow> (string \<rightharpoonup> param_value) \<Rightarrow> error + (string \<rightharpoonup> param_value)" where
  "match_fields float_of int_of i [] params = Inr params"
| "match_fields float_of int_of i (field # val_split) params =
     (case match_field float_of int_of i field params of
        Inl e \<Rightarrow> Inl e
      | Inr params' \<Rightarrow> match_fields float_of int_of (Suc i) val_split params')"

text \<open>
  One round of the loop over the colon-separated elements: the element is stripped,
  skipped when empty, split into key and value, and handled by its key.
\<close>

text \<open>
  \<^verbatim>\<open>int(val.strip()) / 100\<close> with its range check. The quotient is the real quotient
  (the rounding to a double is not modelled; it moves no quotient across 0 or 1), and
  the division raises \<^verbatim>\<open>OverflowError\<close> when the quotient rounds beyond the largest double.
\<close>

definition percent_value :: "(string \<Rightarrow> int option) \<Rightarrow> string \<Rightarrow> string \<Rightarrow> error + real" where
  "percent_value int_of name val =
     (case int_of (strip val) of
        None \<Rightarrow> Inl (ValueError ''invalid literal for int() with base 10'')
      | Some n \<Rightarrow>
          if \<bar>real_of_int n / 100\<bar> \<ge> 2 ^ 1024 - 2 ^ 970
          then Inl (OverflowError ''integer division result too large for a float'')
          else if real_of_int n / 100 < 0 \<or> real_of_int n / 100 > 1
          then Inl (ValueError (''Overlap length ('' @ name @ '') must be between 0 and 100 (inclusive)''))
          else Inr (real_of_int n / 100))"

definition tokenize :: "string \<Rightarrow> string \<times> string option" where
  "tokenize param_element =
     (let param_tok = re_split_eq param_element in
      (lower (hd param_tok), if length param_tok > 1 then Some (param_tok ! 1) else None))"

definition param_key_val ::
  "(string \<Rightarrow> py_float option) \<Rightarrow> (string \<Rightarrow> int option) \<Rightarrow> string \<Rightarrow> string option
   \<Rightarrow> param_set \<Rightarrow> error + param_set" where
  "param_key_val float_of int_of key val ps =
        (
         if key = ''ro'' then
           (case val of
              None \<Rightarrow> Inl (ValueError ''Missing value for parameter ro'')
            | Some v \<Rightarrow>
                if v \<noteq> ''any'' then
                  (case percent_value int_of ''ro'' v of
                     Inl e \<Rightarrow> Inl e
                   | Inr x \<Rightarrow> Inr (ps\<lparr>ro_min := Some x\<rparr>))
                else Inl (RuntimeError ''RO any is not yet implemented''))
         else if key = ''szro'' then
           (case val of
              None \<Rightarrow> Inl (ValueError ''Missing value for parameter szro'')
            | Some v \<Rightarrow>
                if v \<noteq> ''any'' then
                  (case percent_value int_of ''szro'' v of
                     Inl e \<Rightarrow> Inl e
                   | Inr x \<Rightarrow> Inr (ps\<lparr>szro_min := Some x\<rparr>))
                else Inr (ps\<lparr>szro_min := None\<rparr>))
         else if key = ''offset'' then
           (case val of
              None \<Rightarrow> Inl (ValueError ''Missing value for parameter offset'')
            | Some v \<Rightarrow>
                if v \<noteq> ''any'' then
                  (case int_of (strip v) of
                     None \<Rightarrow> Inl (ValueError ''invalid literal for int() with base 10'')
                   | Some n \<Rightarrow>
                       if n < 0
                       then Inl (RuntimeError ''Maximum offset (offset parameter) may not be negative'')
                       else Inr (ps\<lparr>offset_max := Some n\<rparr>))
                else Inr (ps\<lparr>offset_max := None\<rparr>))
         else if key = ''refalt'' then
           (if val \<noteq> None
            then Inl (RuntimeError ''Match-REF/ALT (refalt) should not have an argument'')
            else Inr (ps\<lparr>match_ref := True, match_alt := True\<rparr>))
         else if key = ''ref'' then
           (if val \<noteq> None
            then Inl (RuntimeError ''Match-REF (ref) should not have an argument'')
            else Inr (ps\<lparr>match_ref := True\<rparr>))
         else if key = ''alt'' then
           (if val \<noteq> None
            then Inl (RuntimeError ''Match-ALT (alt) should not have an argument'')
            else Inr (ps\<lparr>match_alt := True\<rparr>))
         else if key = ''expand'' then
           (if val \<noteq> None
            then Inl (RuntimeError ''Expand-base (expand) should not have an argument'')
            else Inr (ps\<lparr>expand_base := True\<rparr>))
         else if key = ''match'' then
           (let val_split = split_on CHR '','' (strip (case val of None \<Rightarrow> [] | Some v \<Rightarrow> v)) in
            if length val_split > length ALIGN_PARAM_FIELD_LIST
            then Inl (RuntimeError ''Alignment parameter in match argument count exceeds max'')
            else
              (case match_fields float_of int_of 0 val_split ALIGN_PARAM_DEFAULT of
                 Inl e \<Rightarrow> Inl e
               | Inr params \<Rightarrow> Inr (ps\<lparr>align_param := Some params\<rparr>)))
         else Inl (ValueError ''Unknown parameter token''))"

definition param_element ::
  "(string \<Rightarrow> py_float option) \<Rightarrow> (string \<Rightarrow> int option) \<Rightarrow> string \<Rightarrow> param_set
   \<Rightarrow> error + param_set" where
  "param_element float_of int_of element ps =
     (let param_element = strip element in
      if param_element = [] then Inr ps
      else (case tokenize param_element of (key, val) \<Rightarrow> param_key_val float_of int_of key val ps))"

fun param_elements ::
  "(string \<Rightarrow> py_float option) \<Rightarrow> (string \<Rightarrow> int option) \<Rightarrow> string list \<Rightarrow> param_set
   \<Rightarrow> error + param_set" where
  "param_elements float_of int_of [] ps = Inr ps"
| "param_elements float_of int_of (element # rest) ps =
     (case param_element float_of int_of element ps of
        Inl e \<Rightarrow> Inl e
      | Inr ps' \<Rightarrow> param_elements float_of int_of rest ps')"

definition check_param_set :: "param_set \<Rightarrow> error + param_set" where
  "check_param_set ps =
     (if szro_min ps \<noteq> None \<and> offset_max ps = None
      then Inl (RuntimeError ''Parameters szro was specified without offset'')
      else
        (let ps = (if ro_min ps = None \<and> szro_min ps \<noteq> None then ps\<lparr>ro_min := szro_min ps\<rparr> else ps) in
         case align_param ps of
           Some params \<Rightarrow>
             Inr (ps\<lparr>match_seq := True,
                     aligner := Some \<lparr>aligner_match = params ''MATCH'',
                                       aligner_mismatch = params ''MISMATCH'',
                                       aligner_gap_open = params ''GAP-OPEN'',
                                       aligner_gap_extend = params ''GAP-EXTEND''\<rparr>,
                     align_match_prop := params ''SCORE-PROP'',
                     read_seq := True\<rparr>)
         | None \<Rightarrow>
             Inr (ps\<lparr>match_seq := False, aligner := None, align_match_prop := None,
                     read_seq := False\<rparr>)))"

definition get_param_set ::
  "(string \<Rightarrow> py_float option) \<Rightarrow> (string \<Rightarrow> int option) \<Rightarrow> string option \<Rightarrow> string
   \<Rightarrow> error + param_set" where
  "get_param_set float_of int_of merge_params strategy =
     (case merge_params of
        None \<Rightarrow> Inl (RuntimeError ''Cannot merge with parameters: None'')
      | Some s \<Rightarrow>
          (case param_elements float_of int_of (split_on CHR '':'' s) initial_param_set of
             Inl e \<Rightarrow> Inl e
           | Inr ps \<Rightarrow> check_param_set ps))"

text \<open>
  What a parameter string specifies, to state properties of the parser: the key and
  value of every non-empty element in order, and the value the last element with a given
  key carries (\<open>None\<close> when no element has the key, \<open>Some None\<close> for a bare key).
\<close>

definition elements :: "string list \<Rightarrow> (string \<times> string option) list" where
  "elements es = map tokenize (filter (\<lambda>e. e \<noteq> []) (map strip es))"

definition specified :: "string \<Rightarrow> (string \<times> string option) list" where
  "specified s = elements (split_on CHR '':'' s)"


section \<open>variant.py: column order\<close>

text \<open>
  \<^verbatim>\<open>order_variant_columns(df, head_cols, tail_cols, allow_missing, subset)\<close>. Only the
  column list changes; the rows keep their fields.
\<close>

definition order_variant_columns ::
  "'r dataframe \<Rightarrow> string list option \<Rightarrow> string list option \<Rightarrow> bool \<Rightarrow> bool \<Rightarrow> error + 'r dataframe" where
  "order_variant_columns df head_cols tail_cols allow_missing subset_cols =
     (let head_cols = (case head_cols of None \<Rightarrow> [] | Some h \<Rightarrow> h);
          tail_cols = (case tail_cols of None \<Rightarrow> [] | Some t \<Rightarrow> t)
      in
      if \<not> allow_missing \<and> (\<exists>col\<in>set head_cols. col \<notin> set (columns df))
      then Inl (RuntimeError ''Missing head column in variant file'')
      else if \<not> allow_missing \<and> (\<exists>col\<in>set tail_cols. col \<notin> set (columns df))
      then Inl (RuntimeError ''Missing tail column in variant file'')
      else
        (let head_cols = filter (\<lambda>col. col \<in> set (columns df)) head_cols;
             tail_cols = filter (\<lambda>col. col \<in> set (columns df)) tail_cols;
             tail_cols = filter (\<lambda>col. col \<notin> set head_cols) tail_cols
         in
         if head_cols = [] \<and> tail_cols = []
         then Inl (RuntimeError ''No head or tail columns to sort'')
         else
           (let mid_cols = (if subset_cols then []
                            else filter (\<lambda>col. col \<notin> set head_cols \<union> set tail_cols) (columns df))
            in Inr (df\<lparr>columns := head_cols @ mid_cols @ tail_cols\<rparr>))))"

section \<open>svmerge.py: the sample loader\<close>

text \<open>
  Modelled from the spec: \<^verbatim>\<open>svpoplib.pd.read_csv_chrom\<close> and \<^verbatim>\<open>svpoplib.seq.fa_to_series\<close> are
  not among the sources. Reading a table keeps the columns the column filter accepts and,
  when a chromosome is given, the rows of that chromosome. A BED file is the table it
  holds; a sequence file is the list of its records, variant ID and sequence, and the
  loader joins it to the table on \<^verbatim>\<open>ID\<close> (a left join: a row without a record gets no
  sequence, a row with several records is repeated).
\<close>

definition read_csv_chrom ::
  "variant dataframe \<Rightarrow> string option \<Rightarrow> (string \<Rightarrow> bool) \<Rightarrow> variant dataframe" where
  "read_csv_chrom bed_file chrom usecols =
     \<lparr>columns = filter usecols (columns bed_file),
      rows = map (\<lambda>r. r\<lparr>OTHER := filter (\<lambda>(col, v). usecols col) (OTHER r)\<rparr>)
               (case chrom of
                  None \<Rightarrow> rows bed_file
                | Some c \<Rightarrow> filter (\<lambda>r. CHROM r = c) (rows bed_file))\<rparr>"

type_synonym fasta = "(string \<times> string) list"

definition append_col :: "string \<Rightarrow> string list \<Rightarrow> string list" where
  "append_col col cols = (if col \<in> set cols then cols else cols @ [col])"

text \<open>
  \<^verbatim>\<open>read_variant_table(bed_file_name, sample_name, subset_chrom, fa_file_name, col_list)\<close>.
  The steps follow the source: the join of the sequences, the defaults for \<^verbatim>\<open>SVLEN\<close> and
  \<^verbatim>\<open>SVTYPE\<close>, the column order, the sign of \<^verbatim>\<open>SVLEN\<close>, the sort, the unique IDs. A failure
  of \<^verbatim>\<open>order_variant_columns\<close> reaches the clause \<^verbatim>\<open>except RuntimeException\<close>, a name Python
  does not know, so what the caller sees is the \<^verbatim>\<open>NameError\<close>.
\<close>

definition head_cols :: "string list" where
  "head_cols = [''#CHROM'', ''POS'', ''END'', ''ID'', ''SVTYPE'', ''SVLEN'']"

definition records_of :: "fasta \<Rightarrow> string \<Rightarrow> string list" where
  "records_of fa name = map snd (filter (\<lambda>(record_id, sequence). record_id = name) fa)"

definition join_sequences :: "string \<Rightarrow> fasta \<Rightarrow> variant dataframe \<Rightarrow> error + variant dataframe" where
  "join_sequences sample_name fa df =
     (if ''SEQ'' \<in> set (columns df) then Inl (RuntimeError ''Duplicate SEQ sources for BED file'')
      else if ''ID'' \<notin> set (columns df) then Inl (KeyError ''ID'')
      else if \<exists>r\<in>set (rows df). records_of fa (ID r) = []
      then Inl (RuntimeError ''Missing records in FASTA for sample'')
      else Inr \<lparr>columns = columns df @ [''SEQ''],
                rows = concat (map (\<lambda>r. map (\<lambda>sequence. r\<lparr>SEQ := sequence\<rparr>) (records_of fa (ID r)))
                                   (rows df))\<rparr>)"

definition default_svlen :: "variant dataframe \<Rightarrow> error + variant dataframe" where
  "default_svlen df =
     (if ''SVLEN'' \<notin> set (columns df) then
        (if ''END'' \<notin> set (columns df) \<or> ''SVTYPE'' \<notin> set (columns df)
         then Inl (RuntimeError ''Missing SVLEN: Need both SVTYPE and END to set automatically'')
         else if \<exists>r\<in>set (rows df). upper (SVTYPE r) = ''INS''
         then Inl (RuntimeError ''Missing SVLEN: Cannot compute for insertions (SVTYPE must not be INS for any record)'')
         else if ''POS'' \<notin> set (columns df) then Inl (KeyError ''POS'')
         else Inr \<lparr>columns = columns df @ [''SVLEN''],
                   rows = map (\<lambda>r. r\<lparr>SVLEN := int64 (END r - POS r)\<rparr>) (rows df)\<rparr>)
      else Inr df)"

definition default_svtype :: "variant dataframe \<Rightarrow> variant dataframe" where
  "default_svtype df =
     (if ''SVTYPE'' \<notin> set (columns df)
      then \<lparr>columns = columns df @ [''SVTYPE''],
            rows = map (\<lambda>r. r\<lparr>SVTYPE := ''RGN''\<rparr>) (rows df)\<rparr>
      else df)"

definition check_and_sort :: "variant dataframe \<Rightarrow> error + variant dataframe" where
  "check_and_sort df =
     (if \<exists>r\<in>set (rows df). SVLEN r < 0 then Inl (RuntimeError ''Negative SVLEN entries'')
      else
        (let df = df\<lparr>rows := sort_values (\<lambda>r. (CHROM r, POS r, SVLEN r, ID r)) (rows df)\<rparr> in
         if \<not> distinct (map ID (rows df))
         then Inl (RuntimeError ''Found IDs with duplicates in sample'')
         else Inr df))"

definition read_variant_table ::
  "variant dataframe \<Rightarrow> string \<Rightarrow> string option \<Rightarrow> fasta option \<Rightarrow> string list
   \<Rightarrow> error + variant dataframe" where
  "read_variant_table bed_file sample_name subset_chrom fa_file col_list =
     (let col_list = head_cols @ filter (\<lambda>col. col \<notin> set head_cols) col_list;
          df = read_csv_chrom bed_file subset_chrom (\<lambda>col. col \<in> set col_list)
      in
      case (case fa_file of
              Some fa \<Rightarrow>
                (case join_sequences sample_name fa df of
                   Inl e \<Rightarrow> Inl e
                 | Inr df \<Rightarrow> Inr (df, append_col ''SEQ'' col_list))
            | None \<Rightarrow>
                Inr (df, if ''SEQ'' \<in> set (columns df) then append_col ''SEQ'' col_list else col_list))
      of
        Inl e \<Rightarrow> Inl e
      | Inr (df, col_list) \<Rightarrow>
          (case default_svlen df of
             Inl e \<Rightarrow> Inl e
           | Inr df \<Rightarrow>
               (case order_variant_columns (default_svtype df) (Some col_list) None False True of
                  Inl e \<Rightarrow> Inl (NameError ''RuntimeException'')
                | Inr df \<Rightarrow> check_and_sort df)))"

section \<open>svmerge.py: the finalizer of \<^verbatim>\<open>merge_variants_nr\<close>\<close>








section \<open>Properties\<close>

subsection \<open>Reciprocal overlap\<close>

lemma min_quotient_max_denominator:
  fixes x a b :: real
  assumes "0 \<le> x" "0 < a" "0 < b"
  shows "min (x / a) (x / b) = x / max a b"
proof (cases "a \<le> b")
  case True
  with assms have "x / b \<le> x / a"
    by (simp add: frac_le)
  with True show ?thesis
    by (simp add: max_def min_def)
next
  case False
  with assms have "x / a \<le> x / b"
    by (simp add: frac_le)
  with False show ?thesis
    by (simp add: max_def min_def)
qed

text \<open>
  Claim C5. For integer intervals of positive length, \<open>reciprocal_overlap\<close> returns
  the overlap \<open>max 0 (min end_a end_b - max begin_a begin_b)\<close> divided by the longer
  of the two lengths, and it returns 0 whenever the intervals are disjoint.
\<close>

theorem reciprocal_overlap_formula:
  assumes "begin_a < end_a" and "begin_b < end_b"
  shows "reciprocal_overlap begin_a end_a begin_b end_b =
           Inr (real_of_int (max 0 (min end_a end_b - max begin_a begin_b))
                / real_of_int (max (end_a - begin_a) (end_b - begin_b)))
         \<and> (end_a \<le> begin_b \<or> end_b \<le> begin_a \<longrightarrow>
              reciprocal_overlap begin_a end_a begin_b end_b = Inr 0)"
proof -
  let ?o = "min end_a end_b - max begin_a begin_b"
  have la: "0 < real_of_int (end_a - begin_a)" and lb: "0 < real_of_int (end_b - begin_b)"
    using assms by simp_all
  have formula: "reciprocal_overlap begin_a end_a begin_b end_b =
      Inr (real_of_int (max 0 ?o) / real_of_int (max (end_a - begin_a) (end_b - begin_b)))"
  proof (cases "?o < 0")
    case True
    then have "max 0 ?o = 0" by simp
    with True show ?thesis
      by (simp add: reciprocal_overlap_def Let_def)
  next
    case False
    then have o0: "0 \<le> ?o" by linarith
    then have nonneg: "0 \<le> real_of_int ?o" by (simp only: of_int_0_le_iff)
    from o0 have m: "max 0 ?o = ?o" by (rule max_absorb2)
    have "min (real_of_int ?o / real_of_int (end_a - begin_a))
              (real_of_int ?o / real_of_int (end_b - begin_b))
          = real_of_int ?o / max (real_of_int (end_a - begin_a)) (real_of_int (end_b - begin_b))"
      using min_quotient_max_denominator [OF nonneg la lb] .
    also have "max (real_of_int (end_a - begin_a)) (real_of_int (end_b - begin_b))
          = real_of_int (max (end_a - begin_a) (end_b - begin_b))"
      by (simp add: max_def)
    finally have q: "min (real_of_int ?o / real_of_int (end_a - begin_a))
              (real_of_int ?o / real_of_int (end_b - begin_b))
          = real_of_int ?o / real_of_int (max (end_a - begin_a) (end_b - begin_b))" .
    have "reciprocal_overlap begin_a end_a begin_b end_b =
        Inr (min (real_of_int ?o / real_of_int (end_a - begin_a))
                 (real_of_int ?o / real_of_int (end_b - begin_b)))"
      using False assms by (simp add: reciprocal_overlap_def Let_def)
    with q m show ?thesis by simp
  qed
  have disjoint: "reciprocal_overlap begin_a end_a begin_b end_b = Inr 0"
    if "end_a \<le> begin_b \<or> end_b \<le> begin_a"
  proof -
    from that assms have "?o \<le> 0" by auto
    then have "max 0 ?o = 0" by simp
    with formula show ?thesis by simp
  qed
  from formula disjoint show ?thesis by blast
qed

theorem reciprocal_overlap_formula_witness:
  "(100::int) < 200 \<and> (140::int) < 240
   \<and> reciprocal_overlap 100 200 140 240 = Inr (3 / 5)
   \<and> reciprocal_overlap 100 200 300 400 = Inr 0"
  using reciprocal_overlap_formula [of 100 200 140 240]
        reciprocal_overlap_formula [of 100 200 300 400]
  by simp

subsection \<open>ID versioning\<close>

lemma distinct_count_list_le_1: "distinct xs \<Longrightarrow> count_list xs x \<le> 1"
  by (induction xs) auto

lemma dup_set_empty_if_unique:
  assumes "distinct id_col"
    and "case existing_id_set of None \<Rightarrow> True | Some existing \<Rightarrow> fset existing \<inter> set id_col = {}"
  shows "dup_set existing_id_set id_col = {||}"
proof -
  have "id_count existing_id_set id_col val \<le> 1" for val
  proof (cases existing_id_set)
    case None
    with distinct_count_list_le_1 [OF assms(1), of val] show ?thesis
      by (simp add: id_count_def)
  next
    case (Some existing)
    show ?thesis
    proof (cases "val |\<in>| existing")
      case True
      with Some assms(2) have "val \<notin> set id_col" by auto
      with Some True show ?thesis by (simp add: id_count_def)
    next
      case False
      with Some distinct_count_list_le_1 [OF assms(1), of val] show ?thesis
        by (simp add: id_count_def)
    qed
  qed
  then have "\<not> 1 < id_count existing_id_set id_col val" for val
    by (simp add: not_less)
  then show ?thesis
    by (simp add: dup_set_def)
qed

text \<open>
  Claim C9. A column whose entries are pairwise distinct and disjoint from the supplied
  existing-ID set (or given with no existing set) is returned unchanged by
  \<open>version_id\<close>.
\<close>

theorem version_id_unique_unchanged:
  assumes "distinct id_col"
    and "case existing_id_set of None \<Rightarrow> True | Some existing \<Rightarrow> fset existing \<inter> set id_col = {}"
  shows "version_id int_of str_ok id_col existing_id_set = Inr id_col"
  using dup_set_empty_if_unique [OF assms] by (simp add: version_id_def)

theorem version_id_unique_unchanged_witness:
  "distinct [''chr1-100-INS-50'', ''chr1-100-INS-50.1'', ''chr2-7-DEL-9'']
   \<and> fset {|''chr1-5-DEL-3'', ''chr2-7-DEL-9.1''|}
       \<inter> set [''chr1-100-INS-50'', ''chr1-100-INS-50.1'', ''chr2-7-DEL-9''] = {}
   \<and> version_id py_int (\<lambda>n. True) [''chr1-100-INS-50'', ''chr1-100-INS-50.1'', ''chr2-7-DEL-9'']
        (Some {|''chr1-5-DEL-3'', ''chr2-7-DEL-9.1''|})
      = Inr [''chr1-100-INS-50'', ''chr1-100-INS-50.1'', ''chr2-7-DEL-9'']
   \<and> version_id py_int (\<lambda>n. True) [''chr1-100-INS-50'', ''chr1-100-INS-50.1'', ''chr2-7-DEL-9''] None
      = Inr [''chr1-100-INS-50'', ''chr1-100-INS-50.1'', ''chr2-7-DEL-9'']"
proof -
  let ?col = "[''chr1-100-INS-50'', ''chr1-100-INS-50.1'', ''chr2-7-DEL-9'']"
  let ?ex = "{|''chr1-5-DEL-3'', ''chr2-7-DEL-9.1''|}"
  have d: "distinct ?col" by simp
  have e: "fset ?ex \<inter> set ?col = {}" by simp
  have s: "case Some ?ex of None \<Rightarrow> True | Some existing \<Rightarrow> fset existing \<inter> set ?col = {}"
    using e by simp
  have n: "case None :: string fset option of None \<Rightarrow> True
           | Some existing \<Rightarrow> fset existing \<inter> set ?col = {}"
    by simp
  show ?thesis
    by (rule conjI [OF d conjI [OF e conjI [OF version_id_unique_unchanged [OF d s]
          version_id_unique_unchanged [OF d n]]]])
qed

lemma next_free_version_spec:
  "next_free_version str_ok S b name_version = Some n \<Longrightarrow>
     name_version \<le> n \<and> str_ok n \<and> versioned_name b n |\<notin>| S
     \<and> (\<forall>m. name_version \<le> m \<and> m < n \<longrightarrow> versioned_name b m |\<in>| S)"
proof (induction str_ok S b name_version rule: next_free_version.induct)
  case (1 str_ok id_set base name_version)
  from "1.prems" have ok: "str_ok name_version"
    by (subst (asm) next_free_version.simps) (simp split: if_splits)
  show ?case
  proof (cases "versioned_name base name_version |\<in>| id_set")
    case True
    with ok "1.prems" have rec: "next_free_version str_ok id_set base (name_version + 1) = Some n"
      by (subst (asm) next_free_version.simps) simp
    from "1.IH" [OF _ True rec] ok have ih:
      "name_version + 1 \<le> n" "str_ok n" "versioned_name base n |\<notin>| id_set"
      "\<forall>m. name_version + 1 \<le> m \<and> m < n \<longrightarrow> versioned_name base m |\<in>| id_set"
      by simp_all
    have "versioned_name base m |\<in>| id_set" if "name_version \<le> m" "m < n" for m
    proof (cases "m = name_version")
      case eq: True
      with True show ?thesis by simp
    next
      case False
      with that have "name_version + 1 \<le> m" by linarith
      with ih(4) that(2) show ?thesis by blast
    qed
    with ih(1,2,3) show ?thesis by auto
  next
    case False
    with ok "1.prems" have "n = name_version"
      by (subst (asm) next_free_version.simps) simp
    with False ok show ?thesis by auto
  qed
qed

lemma renamed_before_0: "renamed_before dups col out 0 = {}"
  by (simp add: renamed_before_def)

lemma renamed_before_Suc:
  "renamed_before dups (c # col) (x # out) (Suc k)
   = (if c |\<in>| dups then insert x (renamed_before dups col out k) else renamed_before dups col out k)"
proof -
  have "renamed_before dups (c # col) (x # out) (Suc k)
        = {(x # out) ! j | j. j < Suc k \<and> (c # col) ! j |\<in>| dups}"
    by (simp add: renamed_before_def)
  also have "\<dots> = (if c |\<in>| dups then {x} else {}) \<union> {out ! j | j. j < k \<and> col ! j |\<in>| dups}"
  proof (rule set_eqI)
    fix y
    show "y \<in> {(x # out) ! j | j. j < Suc k \<and> (c # col) ! j |\<in>| dups}
      \<longleftrightarrow> y \<in> (if c |\<in>| dups then {x} else {}) \<union> {out ! j | j. j < k \<and> col ! j |\<in>| dups}"
    proof
      assume "y \<in> {(x # out) ! j | j. j < Suc k \<and> (c # col) ! j |\<in>| dups}"
      then obtain j where j: "y = (x # out) ! j" "j < Suc k" "(c # col) ! j |\<in>| dups" by blast
      show "y \<in> (if c |\<in>| dups then {x} else {}) \<union> {out ! j | j. j < k \<and> col ! j |\<in>| dups}"
      proof (cases j)
        case 0
        with j show ?thesis by simp
      next
        case (Suc j')
        with j have "y = out ! j'" "j' < k" "col ! j' |\<in>| dups" by simp_all
        then show ?thesis by blast
      qed
    next
      assume "y \<in> (if c |\<in>| dups then {x} else {}) \<union> {out ! j | j. j < k \<and> col ! j |\<in>| dups}"
      then consider "c |\<in>| dups" "y = x" | j' where "y = out ! j'" "j' < k" "col ! j' |\<in>| dups"
        by (auto split: if_splits)
      then show "y \<in> {(x # out) ! j | j. j < Suc k \<and> (c # col) ! j |\<in>| dups}"
      proof cases
        case 1
        then have "y = (x # out) ! 0 \<and> 0 < Suc k \<and> (c # col) ! 0 |\<in>| dups" by simp
        then show ?thesis by blast
      next
        case 2
        then have "y = (x # out) ! Suc j' \<and> Suc j' < Suc k \<and> (c # col) ! Suc j' |\<in>| dups" by simp
        then show ?thesis by blast
      qed
    qed
  qed
  finally show ?thesis by (simp add: renamed_before_def)
qed

lemma version_loop_length: "version_loop int_of str_ok dups S col = Inr out \<Longrightarrow> length out = length col"
  by (induction col arbitrary: S out)
     (auto simp: Let_def split: if_splits sum.splits prod.splits option.splits)

lemma version_loop_spec:
  assumes "version_loop int_of str_ok dups S col = Inr out" and "i < length col"
  shows "(col ! i |\<notin>| dups \<longrightarrow> out ! i = col ! i)
       \<and> (col ! i |\<in>| dups \<longrightarrow>
            (\<exists>b v0 n. name_tokens int_of (col ! i) = Inr (b, v0) \<and> v0 \<le> n
               \<and> out ! i = versioned_name b n
               \<and> versioned_name b n \<notin> fset S \<union> renamed_before dups col out i
               \<and> (\<forall>m. v0 \<le> m \<and> m < n
                      \<longrightarrow> versioned_name b m \<in> fset S \<union> renamed_before dups col out i)))"
  using assms
proof (induction col arbitrary: S out i)
  case Nil
  then show ?case by simp
next
  case (Cons name rest)
  show ?case
  proof (cases "name |\<in>| dups")
    case True
    with Cons.prems(1) obtain b v0 where tok: "name_tokens int_of name = Inr (b, v0)"
      by (auto split: sum.splits)
    from True tok Cons.prems(1) obtain n where n: "next_free_version str_ok S b v0 = Some n"
      by (auto split: option.splits)
    define new_name where "new_name = versioned_name b n"
    from True tok n Cons.prems(1) obtain out' where
      rest: "version_loop int_of str_ok dups (finsert new_name S) rest = Inr out'" and out: "out = new_name # out'"
      by (auto simp: Let_def new_name_def split: sum.splits)
    from next_free_version_spec [OF n] have nfv:
      "v0 \<le> n" "versioned_name b n |\<notin>| S"
      "\<forall>m. v0 \<le> m \<and> m < n \<longrightarrow> versioned_name b m |\<in>| S"
      by simp_all
    show ?thesis
    proof (cases i)
      case 0
      with True tok nfv out show ?thesis
        by (auto simp: renamed_before_0 new_name_def)
    next
      case (Suc k)
      with Cons.prems(2) have k: "k < length rest" by simp
      have sets: "fset S \<union> renamed_before dups (name # rest) out i
                = fset (finsert new_name S) \<union> renamed_before dups rest out' k"
        using True by (simp add: Suc out renamed_before_Suc)
      from Cons.IH [OF rest k] sets Suc out show ?thesis by simp
    qed
  next
    case False
    with Cons.prems(1) obtain out' where
      rest: "version_loop int_of str_ok dups S rest = Inr out'" and out: "out = name # out'"
      by (auto split: sum.splits)
    show ?thesis
    proof (cases i)
      case 0
      with False out show ?thesis by simp
    next
      case (Suc k)
      with Cons.prems(2) have k: "k < length rest" by simp
      have sets: "renamed_before dups (name # rest) out i = renamed_before dups rest out' k"
        using False by (simp add: Suc out renamed_before_Suc)
      from Cons.IH [OF rest k] sets Suc out show ?thesis by simp
    qed
  qed
qed


lemma name_tokens_plain: "CHR ''.'' \<notin> set name \<Longrightarrow> name_tokens int_of name = Inr (name, 1)"
  by (simp add: name_tokens_def rsplit1_def)

lemma name_tokens_base:
  assumes "name_tokens int_of x = Inr (b, v0)"
  shows "x = b \<or> prefix (b @ ''.'') x"
proof (cases "CHR ''.'' \<in> set x")
  case False
  with assms show ?thesis by (simp add: name_tokens_def rsplit1_def)
next
  case True
  let ?P = "\<lambda>c. c \<noteq> CHR ''.''"
  from True assms have b: "b = rev (tl (dropWhile ?P (rev x)))"
    by (auto simp: name_tokens_def rsplit1_def split: option.splits)
  from True have ne: "dropWhile ?P (rev x) \<noteq> []" by simp
  then obtain c ys where dw: "dropWhile ?P (rev x) = c # ys"
    by (cases "dropWhile ?P (rev x)") auto
  from hd_dropWhile [OF ne] dw have c: "c = CHR ''.''" by simp
  from b dw have b': "b = rev ys" by simp
  have "rev x = takeWhile ?P (rev x) @ c # ys"
    by (metis takeWhile_dropWhile_id dw)
  then have "rev (rev x) = rev (takeWhile ?P (rev x) @ c # ys)"
    by (rule arg_cong)
  then have "x = (b @ ''.'') @ rev (takeWhile ?P (rev x))"
    by (simp add: b' c)
  then have "prefix (b @ ''.'') x"
    by (rule prefixI)
  then show ?thesis ..
qed

lemma str_int_no_dot: "CHR ''.'' \<notin> set (str_int n)"
proof
  assume "CHR ''.'' \<in> set (str_int n)"
  then have "CHR ''.'' \<in> set (str_nat (nat (- n))) \<or> CHR ''.'' \<in> set (str_nat (nat n))"
    by (auto simp: str_int_def split: if_splits)
  then have "is_digit CHR ''.''" using str_nat_digits by blast
  then show False by (simp add: is_digit_def)
qed

lemma split_at_last_occurrence:
  assumes "xs @ c # ys = xs' @ c # ys'" and "c \<notin> set ys" and "c \<notin> set ys'"
  shows "xs = xs' \<and> ys = ys'"
proof -
  let ?P = "\<lambda>a. a \<noteq> c"
  from assms(1) have "rev (xs @ c # ys) = rev (xs' @ c # ys')" by simp
  then have eq: "rev ys @ c # rev xs = rev ys' @ c # rev xs'" by simp
  have "takeWhile ?P (rev ys @ c # rev xs) = rev ys"
    using assms(2) by (subst takeWhile_append2) auto
  moreover have "takeWhile ?P (rev ys' @ c # rev xs') = rev ys'"
    using assms(3) by (subst takeWhile_append2) auto
  ultimately have "rev ys = rev ys'" using eq by simp
  then have ys: "ys = ys'" by simp
  with assms(1) have "xs = xs'" by simp
  with ys show ?thesis by simp
qed

lemma versioned_name_eq: "versioned_name b n = versioned_name b' m \<Longrightarrow> b = b' \<and> n = m"
proof -
  assume "versioned_name b n = versioned_name b' m"
  then have "b @ CHR ''.'' # str_int n = b' @ CHR ''.'' # str_int m"
    by (simp add: versioned_name_def)
  then have "b = b' \<and> str_int n = str_int m"
    by (rule split_at_last_occurrence [OF _ str_int_no_dot str_int_no_dot])
  moreover have "str_int n = str_int m \<Longrightarrow> n = m"
    by (rule str_int_inj)
  ultimately show ?thesis by simp
qed

lemma versioned_name_has_dot: "CHR ''.'' \<in> set (versioned_name b n)"
  by (simp add: versioned_name_def)

lemma versioned_name_prefix: "prefix (b @ ''.'') (versioned_name b n)"
  by (simp add: versioned_name_def)

lemma count_list_occurrence:
  assumes "1 \<le> m" and "m \<le> count_list (take i col) x" and "i \<le> length col"
  shows "\<exists>j<i. col ! j = x \<and> count_list (take (Suc j) col) x = m"
  using assms
proof (induction i)
  case 0
  then show ?case by simp
next
  case (Suc i)
  then have i: "i < length col" by simp
  then have tk: "take (Suc i) col = take i col @ [col ! i]"
    by (simp add: take_Suc_conv_app_nth)
  show ?case
  proof (cases "m \<le> count_list (take i col) x")
    case True
    with Suc.IH [OF Suc.prems(1)] i obtain j where "j < i" "col ! j = x"
      "count_list (take (Suc j) col) x = m" by auto
    then show ?thesis using less_Suc_eq by blast
  next
    case False
    with Suc.prems(2) tk have "col ! i = x" "count_list (take (Suc i) col) x = m"
      by (auto split: if_splits)
    then show ?thesis by blast
  qed
qed

lemma count_list_take_mono: "j \<le> i \<Longrightarrow> count_list (take j col) x \<le> count_list (take i col) x"
proof -
  assume "j \<le> i"
  then have "take i col = take j col @ take (i - j) (drop j col)"
    by (metis le_add_diff_inverse take_add)
  then show ?thesis by simp
qed

lemma dup_set_None_iff: "x |\<in>| dup_set None id_col \<longleftrightarrow> 2 \<le> count_list id_col x"
proof -
  have "2 \<le> count_list id_col x \<Longrightarrow> x \<in> set id_col"
    by (rule ccontr) simp
  then show ?thesis
    by (auto simp: dup_set_def id_count_def fset_of_list_elem)
qed

lemma version_id_None_loop:
  assumes "2 \<le> count_list id_col name"
  shows "version_id int_of str_ok id_col None
         = version_loop int_of str_ok (dup_set None id_col) (fset_of_list id_col |-| dup_set None id_col) id_col"
proof -
  from assms have "name |\<in>| dup_set None id_col" by (simp add: dup_set_None_iff)
  then have "dup_set None id_col \<noteq> {||}" by auto
  then show ?thesis by (simp add: version_id_def Let_def)
qed

lemma unique_names_iff:
  "x |\<in>| fset_of_list id_col |-| dup_set None id_col
   \<longleftrightarrow> x \<in> set id_col \<and> count_list id_col x = 1"
proof -
  have "x \<in> set id_col \<Longrightarrow> 1 \<le> count_list id_col x"
    using count_list_0_iff [of id_col x] by (cases "count_list id_col x") auto
  then show ?thesis
    by (auto simp: dup_set_None_iff fset_of_list_elem)
qed

lemma version_id_None_spec:
  assumes ret: "version_id int_of str_ok id_col None = Inr out" and dup: "2 \<le> count_list id_col name"
    and i: "i < length id_col"
  shows "length out = length id_col"
    and "count_list id_col (id_col ! i) < 2 \<Longrightarrow> out ! i = id_col ! i"
    and "2 \<le> count_list id_col (id_col ! i) \<Longrightarrow>
           \<exists>b v0 n. name_tokens int_of (id_col ! i) = Inr (b, v0) \<and> v0 \<le> n
             \<and> out ! i = versioned_name b n
             \<and> versioned_name b n \<notin> names_present id_col out i
             \<and> (\<forall>m. v0 \<le> m \<and> m < n \<longrightarrow> versioned_name b m \<in> names_present id_col out i)"
proof -
  let ?dups = "dup_set None id_col"
  let ?S = "fset_of_list id_col |-| ?dups"
  from ret dup have loop: "version_loop int_of str_ok ?dups ?S id_col = Inr out"
    by (simp add: version_id_None_loop)
  then show len: "length out = length id_col" by (rule version_loop_length)
  have present: "fset ?S \<union> renamed_before ?dups id_col out k = names_present id_col out k"
    if k: "k \<le> length id_col" for k
  proof (rule set_eqI, rule iffI)
    fix x
    assume "x \<in> fset ?S \<union> renamed_before ?dups id_col out k"
    then consider "x \<in> fset ?S" | j where "x = out ! j" "j < k" by (auto simp: renamed_before_def)
    then show "x \<in> names_present id_col out k"
    proof cases
      case 1
      then show ?thesis using unique_names_iff [of x id_col] by (simp add: names_present_def)
    next
      case 2
      with k len have "x \<in> set (take k out)"
        by (auto simp: in_set_conv_nth)
      then show ?thesis by (simp add: names_present_def)
    qed
  next
    fix x
    assume "x \<in> names_present id_col out k"
    then consider "x \<in> fset ?S" | "x \<in> set (take k out)"
      using unique_names_iff [of x id_col] by (auto simp: names_present_def)
    then show "x \<in> fset ?S \<union> renamed_before ?dups id_col out k"
    proof cases
      case 1
      then show ?thesis by simp
    next
      case 2
      then obtain j where j: "j < k" "j < length out" "x = out ! j"
        by (auto simp: in_set_conv_nth)
      with len have jl: "j < length id_col" by simp
      show ?thesis
      proof (cases "id_col ! j |\<in>| ?dups")
        case True
        with j have "x \<in> renamed_before ?dups id_col out k"
          by (auto simp: renamed_before_def)
        then show ?thesis by simp
      next
        case False
        with version_loop_spec [OF loop jl] j have "x = id_col ! j" by simp
        with False jl have "x |\<in>| ?S" by (simp add: fset_of_list_elem)
        then show ?thesis by simp
      qed
    qed
  qed
  from version_loop_spec [OF loop i]
  show "count_list id_col (id_col ! i) < 2 \<Longrightarrow> out ! i = id_col ! i"
    by (simp add: dup_set_None_iff not_le)
  show "\<exists>b v0 n. name_tokens int_of (id_col ! i) = Inr (b, v0) \<and> v0 \<le> n
             \<and> out ! i = versioned_name b n
             \<and> versioned_name b n \<notin> names_present id_col out i
             \<and> (\<forall>m. v0 \<le> m \<and> m < n \<longrightarrow> versioned_name b m \<in> names_present id_col out i)"
    if "2 \<le> count_list id_col (id_col ! i)"
  proof -
    from that have "id_col ! i |\<in>| ?dups" by (simp only: dup_set_None_iff)
    with version_loop_spec [OF loop i] have
      "\<exists>b v0 n. name_tokens int_of (id_col ! i) = Inr (b, v0) \<and> v0 \<le> n
         \<and> out ! i = versioned_name b n
         \<and> versioned_name b n \<notin> fset ?S \<union> renamed_before ?dups id_col out i
         \<and> (\<forall>m. v0 \<le> m \<and> m < n
               \<longrightarrow> versioned_name b m \<in> fset ?S \<union> renamed_before ?dups id_col out i)"
      by blast
    moreover from i have "fset ?S \<union> renamed_before ?dups id_col out i = names_present id_col out i"
      by (intro present) simp
    ultimately show ?thesis by (simp only:)
  qed
qed

lemma dup_set_None_empty_iff:
  "dup_set None id_col = {||} \<longleftrightarrow> (\<forall>x\<in>set id_col. count_list id_col x < 2)"
proof
  assume e: "dup_set None id_col = {||}"
  show "\<forall>x\<in>set id_col. count_list id_col x < 2"
  proof
    fix x assume "x \<in> set id_col"
    from e have "x |\<notin>| dup_set None id_col" by simp
    then show "count_list id_col x < 2" by (simp add: dup_set_None_iff)
  qed
next
  assume a: "\<forall>x\<in>set id_col. count_list id_col x < 2"
  have "x |\<notin>| dup_set None id_col" for x
  proof (cases "x \<in> set id_col")
    case True
    with a show ?thesis by (simp add: dup_set_None_iff not_le)
  next
    case False
    then show ?thesis by (simp add: dup_set_None_iff)
  qed
  then show "dup_set None id_col = {||}" by auto
qed

lemma version_id_plain_numbering:
  assumes nodot: "CHR ''.'' \<notin> set name" and dup: "2 \<le> count_list id_col name"
    and ret: "version_id int_of str_ok id_col None = Inr out"
    and plain: "\<forall>x\<in>set id_col. x \<noteq> name \<longrightarrow> \<not> prefix (name @ ''.'') x"
    and i: "i < length id_col" and at: "id_col ! i = name"
  shows "out ! i = versioned_name name (int (count_list (take (Suc i) id_col) name))"
  using i at
proof (induction i rule: less_induct)
  case (less i)
  note len = version_id_None_spec(1) [OF ret dup less.prems(1)]
  let ?c = "count_list (take i id_col) name"
  have tk: "count_list (take (Suc i) id_col) name = Suc ?c"
    using less.prems by (simp add: take_Suc_conv_app_nth)
  from version_id_None_spec(3) [OF ret dup less.prems(1)] less.prems(2) dup
  obtain b v0 k where tok: "name_tokens int_of name = Inr (b, v0)" and k: "v0 \<le> k"
    and outi: "out ! i = versioned_name b k"
    and fresh: "versioned_name b k \<notin> names_present id_col out i"
    and below: "\<forall>m. v0 \<le> m \<and> m < k \<longrightarrow> versioned_name b m \<in> names_present id_col out i"
    by auto
  from tok nodot have b: "b = name" and v0: "v0 = 1"
    by (simp_all add: name_tokens_plain)
  have upper: "1 \<le> m \<and> m \<le> int ?c" if m: "versioned_name name m \<in> names_present id_col out i" for m
  proof -
    have ne: "versioned_name name m \<noteq> name"
      using versioned_name_has_dot [of name m] nodot by auto
    from m consider "versioned_name name m \<in> set id_col" | "versioned_name name m \<in> set (take i out)"
      by (auto simp: names_present_def)
    then show ?thesis
    proof cases
      case 1
      from plain [rule_format, OF 1 ne] versioned_name_prefix [of name m] show ?thesis
        by simp
    next
      case 2
      then obtain j where j: "j < i" "j < length out" "out ! j = versioned_name name m"
        by (auto simp: in_set_conv_nth)
      with len have jl: "j < length id_col" by simp
      show ?thesis
      proof (cases "id_col ! j = name")
        case True
        from less.IH [OF j(1) jl True] j(3)
        have "versioned_name name m
              = versioned_name name (int (count_list (take (Suc j) id_col) name))"
          by simp
        from versioned_name_eq [OF this]
        have "m = int (count_list (take (Suc j) id_col) name)" by simp
        moreover have "count_list (take (Suc j) id_col) name \<le> ?c"
          using j(1) by (intro count_list_take_mono) simp
        moreover have "1 \<le> count_list (take (Suc j) id_col) name"
          using jl True by (simp add: take_Suc_conv_app_nth)
        ultimately show ?thesis by simp
      next
        case False
        have mem: "id_col ! j \<in> set id_col" using jl by simp
        show ?thesis
        proof (cases "2 \<le> count_list id_col (id_col ! j)")
          case True
          from version_id_None_spec(3) [OF ret dup jl True] j(3)
          obtain b' v' n' where t': "name_tokens int_of (id_col ! j) = Inr (b', v')"
            and eq: "versioned_name name m = versioned_name b' n'"
            by auto
          from versioned_name_eq [OF eq] have "b' = name" by simp
          with name_tokens_base [OF t'] have "id_col ! j = name \<or> prefix (name @ ''.'') (id_col ! j)"
            by simp
          with False plain [rule_format, OF mem False] show ?thesis by simp
        next
          case dupj: False
          then have "out ! j = id_col ! j"
            using version_id_None_spec(2) [OF ret dup jl] by simp
          with j(3) have "id_col ! j = versioned_name name m" by simp
          with plain [rule_format, OF mem False] versioned_name_prefix [of name m]
          show ?thesis by simp
        qed
      qed
    qed
  qed
  have lower: "versioned_name name m \<in> names_present id_col out i" if m: "1 \<le> m" "m \<le> int ?c" for m
  proof -
    from m have "1 \<le> nat m" "nat m \<le> ?c" by simp_all
    from count_list_occurrence [OF this] less.prems(1)
    obtain j where j: "j < i" "id_col ! j = name" "count_list (take (Suc j) id_col) name = nat m"
      by auto
    with less.prems(1) have jl: "j < length id_col" by simp
    from less.IH [OF j(1) jl j(2)] j(3) m have "out ! j = versioned_name name m" by simp
    moreover have "out ! j \<in> set (take i out)"
    proof -
      from j(1) jl len have "j < length (take i out)" by simp
      then have "take i out ! j \<in> set (take i out)" by (rule nth_mem)
      with j(1) show ?thesis by simp
    qed
    ultimately show ?thesis by (simp add: names_present_def)
  qed
  have "k = int ?c + 1"
  proof (rule ccontr)
    assume neq: "k \<noteq> int ?c + 1"
    from k v0 have k1: "1 \<le> k" by simp
    show False
    proof (cases "k \<le> int ?c")
      case True
      from lower [OF k1 True] fresh b show ?thesis by simp
    next
      case False
      with neq have "int ?c + 1 < k" by simp
      with below v0 b have "versioned_name name (int ?c + 1) \<in> names_present id_col out i"
        by simp
      from upper [OF this] show ?thesis by simp
    qed
  qed
  with tk have "int (count_list (take (Suc i) id_col) name) = k" by simp
  with outi b show ?case by (simp only:)
qed



text \<open>
  Claim C10, as amended. Let \<open>name\<close> be an ID with no dot that occurs at least twice in
  the column, let no existing-ID set be supplied, and let \<open>version_id\<close> return the column
  \<open>out\<close>. Then the length is kept; \<open>name\<close> itself does not occur in \<open>out\<close>; every occurrence
  of \<open>name\<close>, the first included, becomes \<open>name.k\<close> for the least \<open>k \<ge> 1\<close> whose name is not
  yet taken when the loop reaches it (taken are the names occurring once in the column
  and the output written before that index); and when no other entry of the column
  starts with \<open>name.\<close> the occurrences become \<open>name.1\<close>, \<open>name.2\<close>, ... in column order.
\<close>

theorem version_id_renames_every_occurrence:
  assumes nodot: "CHR ''.'' \<notin> set name" and dup: "2 \<le> count_list id_col name"
    and ret: "version_id int_of str_ok id_col None = Inr out"
  shows "length out = length id_col
       \<and> name \<notin> set out
       \<and> (\<forall>i<length id_col. id_col ! i = name \<longrightarrow>
             (\<exists>k\<ge>1. out ! i = versioned_name name k
                 \<and> versioned_name name k \<notin> names_present id_col out i
                 \<and> (\<forall>m. 1 \<le> m \<and> m < k \<longrightarrow> versioned_name name m \<in> names_present id_col out i)))
       \<and> ((\<forall>x\<in>set id_col. x \<noteq> name \<longrightarrow> \<not> prefix (name @ ''.'') x) \<longrightarrow>
             (\<forall>i<length id_col. id_col ! i = name \<longrightarrow>
                out ! i = versioned_name name (int (count_list (take (Suc i) id_col) name))))"
proof (intro conjI allI impI)
  from dup have "name \<in> set id_col"
    using count_notin [of name id_col] by (cases "name \<in> set id_col") auto
  then obtain i0 where i0: "i0 < length id_col" by (auto simp: in_set_conv_nth)
  show len: "length out = length id_col"
    by (rule version_id_None_spec(1) [OF ret dup i0])
  show "name \<notin> set out"
  proof
    assume "name \<in> set out"
    then obtain j where j: "j < length out" "out ! j = name" by (auto simp: in_set_conv_nth)
    with len have jl: "j < length id_col" by simp
    show False
    proof (cases "2 \<le> count_list id_col (id_col ! j)")
      case True
      from version_id_None_spec(3) [OF ret dup jl True] j(2)
      obtain b n where "name = versioned_name b n" by auto
      with versioned_name_has_dot [of b n] nodot show False by simp
    next
      case False
      then have "out ! j = id_col ! j"
        using version_id_None_spec(2) [OF ret dup jl] by simp
      with j(2) False dup show False by simp
    qed
  qed
next
  fix i assume i: "i < length id_col" and at: "id_col ! i = name"
  from version_id_None_spec(3) [OF ret dup i] at dup
  obtain b v0 k where tok: "name_tokens int_of name = Inr (b, v0)" and k: "v0 \<le> k"
    and outi: "out ! i = versioned_name b k"
    and fresh: "versioned_name b k \<notin> names_present id_col out i"
    and below: "\<forall>m. v0 \<le> m \<and> m < k \<longrightarrow> versioned_name b m \<in> names_present id_col out i"
    by auto
  from tok nodot have "b = name" "v0 = 1"
    by (simp_all add: name_tokens_plain)
  with k outi fresh below
  show "\<exists>k\<ge>1. out ! i = versioned_name name k
          \<and> versioned_name name k \<notin> names_present id_col out i
          \<and> (\<forall>m. 1 \<le> m \<and> m < k \<longrightarrow> versioned_name name m \<in> names_present id_col out i)"
    by blast
next
  fix i assume plain: "\<forall>x\<in>set id_col. x \<noteq> name \<longrightarrow> \<not> prefix (name @ ''.'') x"
    and i: "i < length id_col" and at: "id_col ! i = name"
  show "out ! i = versioned_name name (int (count_list (take (Suc i) id_col) name))"
    by (rule version_id_plain_numbering [OF nodot dup ret plain i at])
qed

lemma py_int_digit_0: "py_int ''0'' = Some 0"
  by (simp add: py_int_def py_int_unsigned_def is_int_space_def is_digit_def digit_val_def
        max_str_digits_def)

lemma py_int_digit_1: "py_int ''1'' = Some 1"
  by (simp add: py_int_def py_int_unsigned_def is_int_space_def is_digit_def digit_val_def
        max_str_digits_def)

theorem version_id_renames_every_occurrence_witness:
  "CHR ''.'' \<notin> set ''chr1-100-INS-50''
   \<and> 2 \<le> count_list [''chr1-100-INS-50'', ''chr1-100-INS-50.1'', ''chr1-100-INS-50'', ''chr1-100-INS-50'']
              ''chr1-100-INS-50''
   \<and> version_id py_int (\<lambda>n. True)
        [''chr1-100-INS-50'', ''chr1-100-INS-50.1'', ''chr1-100-INS-50'', ''chr1-100-INS-50''] None
       = Inr [''chr1-100-INS-50.2'', ''chr1-100-INS-50.1'', ''chr1-100-INS-50.3'', ''chr1-100-INS-50.4'']
   \<and> ''chr1-100-INS-50''
       \<notin> set [''chr1-100-INS-50.2'', ''chr1-100-INS-50.1'', ''chr1-100-INS-50.3'', ''chr1-100-INS-50.4'']"
proof -
  let ?name = "''chr1-100-INS-50''"
  let ?col = "[?name, ''chr1-100-INS-50.1'', ?name, ?name]"
  let ?out = "[''chr1-100-INS-50.2'', ''chr1-100-INS-50.1'', ''chr1-100-INS-50.3'', ''chr1-100-INS-50.4'']"
  have h1: "CHR ''.'' \<notin> set ?name" by simp
  have h2: "2 \<le> count_list ?col ?name" by simp
  have run: "version_id py_int (\<lambda>n. True) ?col None = Inr ?out"
    by (simp add: version_id_def Let_def dup_set_None_empty_iff dup_set_None_iff fset_of_list_elem
          name_tokens_def rsplit1_def versioned_name_def next_free_version.simps
          str_int_def str_nat.simps digit_char_def)
  have absent: "?name \<notin> set ?out"
    by (rule version_id_renames_every_occurrence [OF h1 h2 run, THEN conjunct2, THEN conjunct1])
  show ?thesis
    by (rule conjI [OF h1 conjI [OF h2 conjI [OF run absent]]])
qed

text \<open>
  The claim as it was stated fails. In the column \<open>a.0, a.0, a, a\<close> the ID \<open>a\<close> occurs twice
  and neither \<open>a.1\<close> nor \<open>a.2\<close> is in the column, yet its occurrences become \<open>a.3\<close> and \<open>a.4\<close>:
  the two entries \<open>a.0\<close> were renamed first and took \<open>a.1\<close> and \<open>a.2\<close>. In the column
  \<open>a.1, a.1, a.0, a.0\<close> the duplicated ID \<open>a.1\<close> is in the output again, given to \<open>a.0\<close>.
\<close>

theorem version_id_numbering_counterexample:
  "2 \<le> count_list [''a.0'', ''a.0'', ''a'', ''a''] ''a''
   \<and> ''a.1'' \<notin> set [''a.0'', ''a.0'', ''a'', ''a'']
   \<and> ''a.2'' \<notin> set [''a.0'', ''a.0'', ''a'', ''a'']
   \<and> version_id py_int (\<lambda>n. True) [''a.0'', ''a.0'', ''a'', ''a''] None
       = Inr [''a.1'', ''a.2'', ''a.3'', ''a.4'']
   \<and> [''a.1'', ''a.2'', ''a.3'', ''a.4''] ! 2 \<noteq> ''a.1''
   \<and> [''a.1'', ''a.2'', ''a.3'', ''a.4''] ! 3 \<noteq> ''a.2''
   \<and> version_id py_int (\<lambda>n. True) [''a.1'', ''a.1'', ''a.0'', ''a.0''] None
       = Inr [''a.2'', ''a.3'', ''a.1'', ''a.4'']
   \<and> ''a.1'' \<in> set [''a.2'', ''a.3'', ''a.1'', ''a.4'']"
proof -
  have run1: "version_id py_int (\<lambda>n. True) [''a.0'', ''a.0'', ''a'', ''a''] None
       = Inr [''a.1'', ''a.2'', ''a.3'', ''a.4'']"
    by (simp add: version_id_def Let_def dup_set_None_empty_iff dup_set_None_iff fset_of_list_elem
          name_tokens_def rsplit1_def versioned_name_def next_free_version.simps
          str_int_def str_nat.simps digit_char_def py_int_digit_0)
  have run2: "version_id py_int (\<lambda>n. True) [''a.1'', ''a.1'', ''a.0'', ''a.0''] None
       = Inr [''a.2'', ''a.3'', ''a.1'', ''a.4'']"
    by (simp add: version_id_def Let_def dup_set_None_empty_iff dup_set_None_iff fset_of_list_elem
          name_tokens_def rsplit1_def versioned_name_def next_free_version.simps
          str_int_def str_nat.simps digit_char_def py_int_digit_0 py_int_digit_1)
  from run1 run2 show ?thesis by simp
qed

subsection \<open>The exact matcher\<close>










subsection \<open>The parameter parser\<close>

lemma split_on_no_sep: "sep \<notin> set s \<Longrightarrow> split_on sep s = [s]"
  by (induction s) auto

lemma strip_id: "s \<noteq> [] \<Longrightarrow> \<not> is_space (hd s) \<Longrightarrow> \<not> is_space (last s) \<Longrightarrow> strip s = s"
proof -
  assume ne: "s \<noteq> []" and h: "\<not> is_space (hd s)" and l: "\<not> is_space (last s)"
  from ne h have d: "dropWhile is_space s = s" by (cases s) auto
  from ne l have "dropWhile is_space (rev s) = rev s"
    by (cases "rev s") (auto simp add: last_rev [symmetric] simp del: last_rev)
  with d show ?thesis by (simp add: strip_def)
qed

lemma lower_char_separator:
  "\<forall>c\<in>set [CHR '' '', CHR 0x09, CHR 0x0A, CHR 0x0B, CHR 0x0C, CHR 0x0D,
               CHR 0x1C, CHR 0x1D, CHR 0x1E, CHR 0x1F, CHR '','', CHR '':''].
     lower_char c = c \<and> c \<notin> set ''naunlimited''"
  by (simp add: lower_char_def)

lemma lower_char_letter:
  assumes "lower_char c \<in> set ''naunlimited''"
  shows "\<not> is_space c \<and> c \<noteq> CHR '','' \<and> c \<noteq> CHR '':''"
proof (rule ccontr)
  assume "\<not> (\<not> is_space c \<and> c \<noteq> CHR '','' \<and> c \<noteq> CHR '':'')"
  then have m: "c \<in> set [CHR '' '', CHR 0x09, CHR 0x0A, CHR 0x0B, CHR 0x0C, CHR 0x0D,
                      CHR 0x1C, CHR 0x1D, CHR 0x1E, CHR 0x1F, CHR '','', CHR '':'']"
    unfolding is_space_def by simp
  have "lower_char c = c \<and> c \<notin> set ''naunlimited''"
    by (rule bspec [OF lower_char_separator m])
  with assms show False by (simp only:)
qed

lemma lower_tok_chars:
  assumes "lower tok \<in> {''na'', ''unlimited''}"
  shows "tok \<noteq> []" and "\<forall>c\<in>set tok. \<not> is_space c \<and> c \<noteq> CHR '','' \<and> c \<noteq> CHR '':''"
proof -
  from assms show "tok \<noteq> []" by (auto simp add: lower_def)
  have "set (lower tok) \<subseteq> set ''naunlimited''" using assms by auto
  then have "\<forall>c\<in>set tok. lower_char c \<in> set ''naunlimited''"
    unfolding lower_def by auto
  then show "\<forall>c\<in>set tok. \<not> is_space c \<and> c \<noteq> CHR '','' \<and> c \<noteq> CHR '':''"
    using lower_char_letter by blast
qed

lemma match_field_empty:
  "i < 7 \<Longrightarrow> match_field float_of int_of i [] params = Inr params"
proof -
  assume "i < 7"
  then have "i \<in> {0, 1, 2, 3, 4, 5, 6}" by auto
  then show ?thesis
    by (auto simp add: match_field_def Let_def ALIGN_PARAM_KEY_def ALIGN_PARAM_FIELD_LIST_def
        ALIGN_PARAM_TYPE_def strip_def)
qed

lemma match_field_map_limit:
  assumes "int_of tok = None" and "strip tok = tok" and "tok \<noteq> []"
  shows "match_field float_of int_of 5 tok params
         = Inl (RuntimeError ''Alignment parameter in match type mismatch'')"
  using assms
  by (simp add: match_field_def Let_def ALIGN_PARAM_KEY_def ALIGN_PARAM_FIELD_LIST_def
      ALIGN_PARAM_TYPE_def lower_method_in_def convert_token_def)

text \<open>
  Claim C3. A \<^verbatim>\<open>match\<close> token whose sixth field is \<^verbatim>\<open>na\<close> or \<^verbatim>\<open>unlimited\<close> in any letter
  case is meant to set \<^verbatim>\<open>MAP-LIMIT\<close> to \<^verbatim>\<open>None\<close> (the comment on the field list in the source
  says so). The code does not do that: the test for the two words never holds, the field
  goes to \<^verbatim>\<open>int\<close>, which rejects it, and \<^verbatim>\<open>get_param_set\<close> raises the type-mismatch error.
  This is shown for every parameter string \<^verbatim>\<open>match=,,,,,tok\<close> with such a \<open>tok\<close>.
\<close>

theorem get_param_set_map_limit_na_raises:
  assumes low: "lower tok \<in> {''na'', ''unlimited''}"
    and int: "int_of tok = None"
  shows "get_param_set float_of int_of (Some (''match=,,,,,'' @ tok)) strategy
         = Inl (RuntimeError ''Alignment parameter in match type mismatch'')"
proof -
  note ne = lower_tok_chars(1) [OF low] and ch = lower_tok_chars(2) [OF low]
  from ne ch have hd: "\<not> is_space (hd tok)" and lst: "\<not> is_space (last tok)"
    by auto
  have s: "strip tok = tok" by (rule strip_id [OF ne hd lst])
  have comma: "CHR '','' \<notin> set tok" and colon: "CHR '':'' \<notin> set tok" using ch by auto
  have m: "match_fields float_of int_of 0 ['''', '''', '''', '''', '''', tok] ALIGN_PARAM_DEFAULT
           = Inl (RuntimeError ''Alignment parameter in match type mismatch'')"
    using match_field_map_limit [where int_of = int_of and tok = tok and float_of = float_of] int s ne
    by (simp add: match_field_empty eval_nat_numeral)
  have st: "strip ('',,,,,'' @ tok) = '',,,,,'' @ tok"
    using ne lst by (intro strip_id) (simp_all add: is_space_def)
  have sp: "split_on CHR '','' ('',,,,,'' @ tok) = ['''', '''', '''', '''', '''', tok]"
    by (simp add: split_on_no_sep [OF comma])
  have k: "param_key_val float_of int_of ''match'' (Some ('',,,,,'' @ tok)) initial_param_set
           = Inl (RuntimeError ''Alignment parameter in match type mismatch'')"
    unfolding param_key_val_def
    by (simp add: st [unfolded append.simps] sp [unfolded append.simps] m ALIGN_PARAM_FIELD_LIST_def
        del: split_on.simps match_fields.simps)
  have se: "strip (''match=,,,,,'' @ tok) = ''match=,,,,,'' @ tok"
    using ne lst by (intro strip_id) (simp_all add: is_space_def)
  have tk: "tokenize (''match=,,,,,'' @ tok) = (''match'', Some ('',,,,,'' @ tok))"
    by (simp add: tokenize_def re_split_eq_def lower_def lower_char_def is_space_def)
  have so: "split_on CHR '':'' (''match=,,,,,'' @ tok) = [''match=,,,,,'' @ tok]"
    using colon by (intro split_on_no_sep) simp
  show ?thesis
    unfolding get_param_set_def
    by (simp add: so [unfolded append.simps] param_element_def se [unfolded append.simps]
        tk [unfolded append.simps] k [unfolded append.simps] del: split_on.simps)
qed


lemma py_int_NA: "py_int ''NA'' = None"
  by (simp add: py_int_def is_int_space_def py_int_unsigned_def is_digit_def max_str_digits_def)

theorem get_param_set_map_limit_na_raises_witness:
  "lower ''NA'' \<in> {''na'', ''unlimited''} \<and> py_int ''NA'' = None
   \<and> get_param_set (\<lambda>s. None) py_int (Some (''match=,,,,,'' @ ''NA'')) ''nr''
       = Inl (RuntimeError ''Alignment parameter in match type mismatch'')"
proof -
  have l: "lower ''NA'' \<in> {''na'', ''unlimited''}"
    by (simp add: lower_def lower_char_def)
  show ?thesis
    using get_param_set_map_limit_na_raises [where tok = "''NA''" and int_of = py_int
        and float_of = "\<lambda>s. None" and strategy = "''nr''", OF l py_int_NA] l py_int_NA
    by (simp only: simp_thms)
qed


subsection \<open>The default of the reciprocal-overlap threshold\<close>
















subsection \<open>The best support per lead and sample\<close>








subsection \<open>The defaults of the sample loader\<close>

lemma read_csv_chrom_columns:
  "col \<in> set col_list \<Longrightarrow>
   col \<in> set (columns (read_csv_chrom bed_file chrom (\<lambda>c. c \<in> set col_list)))
   \<longleftrightarrow> col \<in> set (columns bed_file)"
  by (simp add: read_csv_chrom_def)

lemma read_csv_chrom_fields:
  "map (\<lambda>r. (CHROM r, POS r, END r, ID r, SVTYPE r, SVLEN r)) (rows (read_csv_chrom bed_file chrom usecols))
   = map (\<lambda>r. (CHROM r, POS r, END r, ID r, SVTYPE r, SVLEN r)) (rows (read_csv_chrom bed_file chrom (\<lambda>c. True)))"
  by (simp add: read_csv_chrom_def comp_def)

lemma join_sequences_Inr:
  assumes "join_sequences sample_name fa df = Inr df'"
  shows "set (columns df') = insert ''SEQ'' (set (columns df))"
    and "(\<lambda>r. (CHROM r, POS r, END r, ID r, SVTYPE r, SVLEN r)) ` set (rows df')
         = (\<lambda>r. (CHROM r, POS r, END r, ID r, SVTYPE r, SVLEN r)) ` set (rows df)"
proof -
  from assms have ne: "\<forall>r\<in>set (rows df). records_of fa (ID r) \<noteq> []"
    and df': "df' = \<lparr>columns = columns df @ [''SEQ''],
                rows = concat (map (\<lambda>r. map (\<lambda>sequence. r\<lparr>SEQ := sequence\<rparr>) (records_of fa (ID r)))
                                   (rows df))\<rparr>"
    by (auto simp add: join_sequences_def split: if_splits)
  from df' show "set (columns df') = insert ''SEQ'' (set (columns df))" by simp
  show "(\<lambda>r. (CHROM r, POS r, END r, ID r, SVTYPE r, SVLEN r)) ` set (rows df')
         = (\<lambda>r. (CHROM r, POS r, END r, ID r, SVTYPE r, SVLEN r)) ` set (rows df)"
  proof (rule set_eqI, rule iffI)
    fix t assume "t \<in> (\<lambda>r. (CHROM r, POS r, END r, ID r, SVTYPE r, SVLEN r)) ` set (rows df')"
    then show "t \<in> (\<lambda>r. (CHROM r, POS r, END r, ID r, SVTYPE r, SVLEN r)) ` set (rows df)"
      unfolding df' by (auto simp add: image_iff)
  next
    fix t assume "t \<in> (\<lambda>r. (CHROM r, POS r, END r, ID r, SVTYPE r, SVLEN r)) ` set (rows df)"
    then obtain r where r: "r \<in> set (rows df)"
      and t: "t = (CHROM r, POS r, END r, ID r, SVTYPE r, SVLEN r)" by auto
    from ne r obtain s where s: "s \<in> set (records_of fa (ID r))"
      by (cases "records_of fa (ID r)") auto
    with r have "r\<lparr>SEQ := s\<rparr> \<in> set (rows df')" unfolding df' by auto
    then have "(\<lambda>r. (CHROM r, POS r, END r, ID r, SVTYPE r, SVLEN r)) (r\<lparr>SEQ := s\<rparr>)
                 \<in> (\<lambda>r. (CHROM r, POS r, END r, ID r, SVTYPE r, SVLEN r)) ` set (rows df')"
      by (rule imageI)
    with t show "t \<in> (\<lambda>r. (CHROM r, POS r, END r, ID r, SVTYPE r, SVLEN r)) ` set (rows df')"
      by simp
  qed
qed

lemma order_variant_columns_rows:
  "order_variant_columns df h t a s = Inr df' \<Longrightarrow> rows df' = rows df"
  by (auto simp add: order_variant_columns_def Let_def split: if_splits)

lemma check_and_sort_rows:
  "check_and_sort df = Inr df' \<Longrightarrow> set (rows df') = set (rows df)"
  by (auto simp add: check_and_sort_def Let_def sort_values_def split: if_splits)

text \<open>The table after the first step of the loader: read, and joined with the sequences.\<close>

lemma read_variant_table_steps:
  assumes "read_variant_table bed_file sample_name subset_chrom fa_file col_list = Inr out"
  obtains df cols df1 df2 where
    "set (columns df) - {''SEQ''} = set (columns (read_csv_chrom bed_file subset_chrom
        (\<lambda>col. col \<in> set (head_cols @ filter (\<lambda>col. col \<notin> set head_cols) col_list)))) - {''SEQ''}"
    "(\<lambda>r. (CHROM r, POS r, END r, ID r, SVTYPE r, SVLEN r)) ` set (rows df)
       = (\<lambda>r. (CHROM r, POS r, END r, ID r, SVTYPE r, SVLEN r)) `
           set (rows (read_csv_chrom bed_file subset_chrom (\<lambda>c. True)))"
    "default_svlen df = Inr df1"
    "order_variant_columns (default_svtype df1) (Some cols) None False True = Inr df2"
    "check_and_sort df2 = Inr out"
proof -
  let ?cl = "head_cols @ filter (\<lambda>col. col \<notin> set head_cols) col_list"
  let ?df0 = "read_csv_chrom bed_file subset_chrom (\<lambda>col. col \<in> set ?cl)"
  let ?f = "\<lambda>r. (CHROM r, POS r, END r, ID r, SVTYPE r, SVLEN r)"
  have f0: "?f ` set (rows ?df0) = ?f ` set (rows (read_csv_chrom bed_file subset_chrom (\<lambda>c. True)))"
    using read_csv_chrom_fields [of bed_file subset_chrom "\<lambda>col. col \<in> set ?cl"]
    by (simp only: set_map [symmetric])
  from assms obtain df cols where
    first: "(case fa_file of
              Some fa \<Rightarrow>
                (case join_sequences sample_name fa ?df0 of
                   Inl e \<Rightarrow> Inl e
                 | Inr df \<Rightarrow> Inr (df, append_col ''SEQ'' ?cl))
            | None \<Rightarrow>
                Inr (?df0, if ''SEQ'' \<in> set (columns ?df0) then append_col ''SEQ'' ?cl else ?cl))
            = Inr (df, cols)"
    and rest: "(case default_svlen df of
             Inl e \<Rightarrow> Inl e
           | Inr df \<Rightarrow>
               (case order_variant_columns (default_svtype df) (Some cols) None False True of
                  Inl e \<Rightarrow> Inl (NameError ''RuntimeException'')
                | Inr df \<Rightarrow> check_and_sort df)) = Inr out"
    unfolding read_variant_table_def Let_def
    by (auto split: sum.splits prod.splits)
  from rest obtain df1 df2 where s1: "default_svlen df = Inr df1"
    and s2: "order_variant_columns (default_svtype df1) (Some cols) None False True = Inr df2"
    and s3: "check_and_sort df2 = Inr out"
    by (auto split: sum.splits)
  have c: "set (columns df) - {''SEQ''} = set (columns ?df0) - {''SEQ''}"
    and f: "?f ` set (rows df) = ?f ` set (rows ?df0)"
  proof -
    show "set (columns df) - {''SEQ''} = set (columns ?df0) - {''SEQ''}"
    proof (cases fa_file)
      case None
      with first show ?thesis by simp
    next
      case (Some fa)
      with first have "join_sequences sample_name fa ?df0 = Inr df"
        by (auto split: sum.splits)
      from join_sequences_Inr(1) [OF this] show ?thesis by simp
    qed
    show "?f ` set (rows df) = ?f ` set (rows ?df0)"
    proof (cases fa_file)
      case None
      with first show ?thesis by simp
    next
      case (Some fa)
      with first have "join_sequences sample_name fa ?df0 = Inr df"
        by (auto split: sum.splits)
      from join_sequences_Inr(2) [OF this] show ?thesis .
    qed
  qed
  from c f [unfolded f0] s1 s2 s3 show thesis by (rule that)
qed

lemma head_col_present:
  assumes "col \<in> set head_cols"
  shows "col \<in> set (columns (read_csv_chrom bed_file chrom
            (\<lambda>c. c \<in> set (head_cols @ filter (\<lambda>c. c \<notin> set head_cols) col_list))))
         \<longleftrightarrow> col \<in> set (columns bed_file)"
  using assms by (intro read_csv_chrom_columns) simp

lemma head_cols_no_SEQ: "col \<in> set head_cols \<Longrightarrow> col \<noteq> ''SEQ''"
  by (auto simp add: head_cols_def)

lemma loaded_column:
  assumes c: "set (columns df) - {''SEQ''} = set (columns (read_csv_chrom bed_file chrom
        (\<lambda>c. c \<in> set (head_cols @ filter (\<lambda>c. c \<notin> set head_cols) col_list)))) - {''SEQ''}"
    and h: "col \<in> set head_cols"
  shows "col \<in> set (columns df) \<longleftrightarrow> col \<in> set (columns bed_file)"
proof -
  have "col \<in> set (columns df) \<longleftrightarrow> col \<in> set (columns df) - {''SEQ''}"
    using head_cols_no_SEQ [OF h] by simp
  also have "\<dots> \<longleftrightarrow> col \<in> set (columns (read_csv_chrom bed_file chrom
        (\<lambda>c. c \<in> set (head_cols @ filter (\<lambda>c. c \<notin> set head_cols) col_list)))) - {''SEQ''}"
    by (simp only: c)
  also have "\<dots> \<longleftrightarrow> col \<in> set (columns bed_file)"
    using head_cols_no_SEQ [OF h] head_col_present [OF h] by simp
  finally show ?thesis .
qed

lemma svlen_derived:
  assumes ret: "read_variant_table bed_file sample_name subset_chrom fa_file col_list = Inr out"
    and no: "''SVLEN'' \<notin> set (columns bed_file)"
  shows "''SVTYPE'' \<in> set (columns bed_file)" and "''END'' \<in> set (columns bed_file)"
    and "\<forall>r\<in>set (rows out). SVLEN r = int64 (END r - POS r)"
    and "\<forall>r\<in>set (rows (read_csv_chrom bed_file subset_chrom (\<lambda>c. True))). upper (SVTYPE r) \<noteq> ''INS''"
proof -
  let ?f = "\<lambda>r. (CHROM r, POS r, END r, ID r, SVTYPE r, SVLEN r)"
  from ret obtain df cols df1 df2 where
    c: "set (columns df) - {''SEQ''} = set (columns (read_csv_chrom bed_file subset_chrom
        (\<lambda>col. col \<in> set (head_cols @ filter (\<lambda>col. col \<notin> set head_cols) col_list)))) - {''SEQ''}"
    and f: "?f ` set (rows df) = ?f ` set (rows (read_csv_chrom bed_file subset_chrom (\<lambda>c. True)))"
    and s1: "default_svlen df = Inr df1"
    and s2: "order_variant_columns (default_svtype df1) (Some cols) None False True = Inr df2"
    and s3: "check_and_sort df2 = Inr out"
    by (rule read_variant_table_steps)
  have svlen: "''SVLEN'' \<notin> set (columns df)"
    using loaded_column [OF c, of "''SVLEN''"] no by (simp add: head_cols_def)
  from s1 svlen have e: "''END'' \<in> set (columns df)" and t: "''SVTYPE'' \<in> set (columns df)"
    and ins: "\<forall>r\<in>set (rows df). upper (SVTYPE r) \<noteq> ''INS''"
    and df1: "df1 = \<lparr>columns = columns df @ [''SVLEN''],
                   rows = map (\<lambda>r. r\<lparr>SVLEN := int64 (END r - POS r)\<rparr>) (rows df)\<rparr>"
    by (auto simp add: default_svlen_def split: if_splits)
  from t show "''SVTYPE'' \<in> set (columns bed_file)"
    using loaded_column [OF c, of "''SVTYPE''"] by (simp add: head_cols_def)
  from e show "''END'' \<in> set (columns bed_file)"
    using loaded_column [OF c, of "''END''"] by (simp add: head_cols_def)
  from t df1 have "default_svtype df1 = df1" by (simp add: default_svtype_def)
  with s2 have "rows df2 = rows df1" by (simp add: order_variant_columns_rows)
  with check_and_sort_rows [OF s3] have "set (rows out) = set (rows df1)" by simp
  then show "\<forall>r\<in>set (rows out). SVLEN r = int64 (END r - POS r)"
    unfolding df1 by auto
  show "\<forall>r\<in>set (rows (read_csv_chrom bed_file subset_chrom (\<lambda>c. True))). upper (SVTYPE r) \<noteq> ''INS''"
  proof
    fix r assume "r \<in> set (rows (read_csv_chrom bed_file subset_chrom (\<lambda>c. True)))"
    then have "?f r \<in> ?f ` set (rows df)" unfolding f by (rule imageI)
    then obtain r' where "r' \<in> set (rows df)" "SVTYPE r' = SVTYPE r" by auto
    with ins show "upper (SVTYPE r) \<noteq> ''INS''" by metis
  qed
qed

lemma svtype_default:
  assumes ret: "read_variant_table bed_file sample_name subset_chrom fa_file col_list = Inr out"
    and no: "''SVTYPE'' \<notin> set (columns bed_file)"
  shows "''SVLEN'' \<in> set (columns bed_file)"
    and "\<forall>r\<in>set (rows out). SVTYPE r = ''RGN''"
proof -
  from ret obtain df cols df1 df2 where
    c: "set (columns df) - {''SEQ''} = set (columns (read_csv_chrom bed_file subset_chrom
        (\<lambda>col. col \<in> set (head_cols @ filter (\<lambda>col. col \<notin> set head_cols) col_list)))) - {''SEQ''}"
    and s1: "default_svlen df = Inr df1"
    and s2: "order_variant_columns (default_svtype df1) (Some cols) None False True = Inr df2"
    and s3: "check_and_sort df2 = Inr out"
    by (rule read_variant_table_steps)
  have t: "''SVTYPE'' \<notin> set (columns df)"
    using loaded_column [OF c, of "''SVTYPE''"] no by (simp add: head_cols_def)
  with s1 have l: "''SVLEN'' \<in> set (columns df)" and df1: "df1 = df"
    by (auto simp add: default_svlen_def split: if_splits)
  from l show "''SVLEN'' \<in> set (columns bed_file)"
    using loaded_column [OF c, of "''SVLEN''"] by (simp add: head_cols_def)
  from t df1 have "rows (default_svtype df1) = map (\<lambda>r. r\<lparr>SVTYPE := ''RGN''\<rparr>) (rows df)"
    by (simp add: default_svtype_def)
  with s2 have "rows df2 = map (\<lambda>r. r\<lparr>SVTYPE := ''RGN''\<rparr>) (rows df)"
    by (simp add: order_variant_columns_rows)
  with check_and_sort_rows [OF s3] have "set (rows out) = set (map (\<lambda>r. r\<lparr>SVTYPE := ''RGN''\<rparr>) (rows df))"
    by simp
  then show "\<forall>r\<in>set (rows out). SVTYPE r = ''RGN''" by auto
qed

lemma int64_id: "- (2 ^ 63) \<le> x \<Longrightarrow> x < 2 ^ 63 \<Longrightarrow> int64 x = x"
  by (simp add: int64_def)

text \<open>
  Claim C4, as amended. For every table that \<^verbatim>\<open>read_variant_table\<close> loads: if the \<^verbatim>\<open>SVLEN\<close>
  column is absent, every row's \<^verbatim>\<open>SVLEN\<close> is \<^verbatim>\<open>END - POS\<close> (in the 64-bit arithmetic of the
  columns, so the difference itself whenever it fits); and if the \<^verbatim>\<open>SVTYPE\<close> column is
  absent, the \<^verbatim>\<open>SVLEN\<close> column is present and every row's \<^verbatim>\<open>SVTYPE\<close> is \<^verbatim>\<open>RGN\<close>. Loading
  aborts with an error when \<^verbatim>\<open>SVLEN\<close> is absent and a row that is read has \<^verbatim>\<open>SVTYPE\<close> \<^verbatim>\<open>INS\<close>
  (in any letter case), and when both \<^verbatim>\<open>SVLEN\<close> and \<^verbatim>\<open>SVTYPE\<close> are absent.
\<close>

theorem read_variant_table_defaults:
  "(''SVLEN'' \<notin> set (columns bed_file)
      \<and> read_variant_table bed_file sample_name subset_chrom fa_file col_list = Inr out
    \<longrightarrow> (\<forall>r\<in>set (rows out).
           SVLEN r = int64 (END r - POS r)
         \<and> (- (2 ^ 63) \<le> END r - POS r \<and> END r - POS r < 2 ^ 63 \<longrightarrow> SVLEN r = END r - POS r)))
   \<and> (''SVLEN'' \<notin> set (columns bed_file)
      \<and> (\<exists>r\<in>set (rows (read_csv_chrom bed_file subset_chrom (\<lambda>col. True))). upper (SVTYPE r) = ''INS'')
    \<longrightarrow> (\<exists>e. read_variant_table bed_file sample_name subset_chrom fa_file col_list = Inl e))
   \<and> (''SVTYPE'' \<notin> set (columns bed_file)
      \<and> read_variant_table bed_file sample_name subset_chrom fa_file col_list = Inr out
    \<longrightarrow> ''SVLEN'' \<in> set (columns bed_file) \<and> (\<forall>r\<in>set (rows out). SVTYPE r = ''RGN''))
   \<and> (''SVTYPE'' \<notin> set (columns bed_file) \<and> ''SVLEN'' \<notin> set (columns bed_file)
    \<longrightarrow> (\<exists>e. read_variant_table bed_file sample_name subset_chrom fa_file col_list = Inl e))"
proof (intro conjI impI)
  assume a: "''SVLEN'' \<notin> set (columns bed_file)
      \<and> read_variant_table bed_file sample_name subset_chrom fa_file col_list = Inr out"
  from svlen_derived(3) [OF a [THEN conjunct2] a [THEN conjunct1]]
  show "\<forall>r\<in>set (rows out).
           SVLEN r = int64 (END r - POS r)
         \<and> (- (2 ^ 63) \<le> END r - POS r \<and> END r - POS r < 2 ^ 63 \<longrightarrow> SVLEN r = END r - POS r)"
    by (auto simp add: int64_id)
next
  assume a: "''SVLEN'' \<notin> set (columns bed_file)
      \<and> (\<exists>r\<in>set (rows (read_csv_chrom bed_file subset_chrom (\<lambda>col. True))). upper (SVTYPE r) = ''INS'')"
  show "\<exists>e. read_variant_table bed_file sample_name subset_chrom fa_file col_list = Inl e"
  proof (cases "read_variant_table bed_file sample_name subset_chrom fa_file col_list")
    case (Inl e)
    then show ?thesis by (rule exI)
  next
    case (Inr res)
    from svlen_derived(4) [OF Inr a [THEN conjunct1]] a [THEN conjunct2]
    show ?thesis by blast
  qed
next
  assume a: "''SVTYPE'' \<notin> set (columns bed_file)
      \<and> read_variant_table bed_file sample_name subset_chrom fa_file col_list = Inr out"
  from svtype_default(1) [OF a [THEN conjunct2] a [THEN conjunct1]]
  show "''SVLEN'' \<in> set (columns bed_file)" .
next
  assume a: "''SVTYPE'' \<notin> set (columns bed_file)
      \<and> read_variant_table bed_file sample_name subset_chrom fa_file col_list = Inr out"
  from svtype_default(2) [OF a [THEN conjunct2] a [THEN conjunct1]]
  show "\<forall>r\<in>set (rows out). SVTYPE r = ''RGN''" .
next
  assume a: "''SVTYPE'' \<notin> set (columns bed_file) \<and> ''SVLEN'' \<notin> set (columns bed_file)"
  show "\<exists>e. read_variant_table bed_file sample_name subset_chrom fa_file col_list = Inl e"
  proof (cases "read_variant_table bed_file sample_name subset_chrom fa_file col_list")
    case (Inl e)
    then show ?thesis by (rule exI)
  next
    case (Inr res)
    from svtype_default(1) [OF Inr a [THEN conjunct1]] a [THEN conjunct2]
    show ?thesis by (simp only: simp_thms)
  qed
qed

lemma read_variant_table_svlen_example:
  "read_variant_table
     \<lparr>columns = [''#CHROM'', ''POS'', ''END'', ''ID'', ''SVTYPE''],
      rows = [\<lparr>CHROM = ''chr1'', POS = 100, END = 150, ID = ''v1'', SVTYPE = ''DEL'', SVLEN = 0,
                REF = [], ALT = [], SEQ = [], OTHER = []\<rparr>,
              \<lparr>CHROM = ''chr1'', POS = 50, END = 80, ID = ''v0'', SVTYPE = ''DUP'', SVLEN = 0,
                REF = [], ALT = [], SEQ = [], OTHER = []\<rparr>]\<rparr>
     ''s1'' None None head_cols
   = Inr \<lparr>columns = [''#CHROM'', ''POS'', ''END'', ''ID'', ''SVTYPE'', ''SVLEN''],
          rows = [\<lparr>CHROM = ''chr1'', POS = 50, END = 80, ID = ''v0'', SVTYPE = ''DUP'', SVLEN = 30,
                    REF = [], ALT = [], SEQ = [], OTHER = []\<rparr>,
                  \<lparr>CHROM = ''chr1'', POS = 100, END = 150, ID = ''v1'', SVTYPE = ''DEL'', SVLEN = 50,
                    REF = [], ALT = [], SEQ = [], OTHER = []\<rparr>]\<rparr>"
  by (simp add: read_variant_table_def head_cols_def read_csv_chrom_def default_svlen_def
      default_svtype_def order_variant_columns_def check_and_sort_def sort_values_def
      upper_def upper_char_def int64_def Let_def)

lemma read_variant_table_ins_example:
  "read_variant_table
     \<lparr>columns = [''#CHROM'', ''POS'', ''END'', ''ID'', ''SVTYPE''],
      rows = [\<lparr>CHROM = ''chr1'', POS = 100, END = 101, ID = ''v1'', SVTYPE = ''ins'', SVLEN = 0,
                REF = [], ALT = [], SEQ = [], OTHER = []\<rparr>]\<rparr>
     ''s1'' None None head_cols
   = Inl (RuntimeError ''Missing SVLEN: Cannot compute for insertions (SVTYPE must not be INS for any record)'')"
  by (simp add: read_variant_table_def head_cols_def read_csv_chrom_def default_svlen_def
      upper_def upper_char_def Let_def)

lemma read_variant_table_svtype_example:
  "read_variant_table
     \<lparr>columns = [''#CHROM'', ''POS'', ''END'', ''ID'', ''SVLEN''],
      rows = [\<lparr>CHROM = ''chr1'', POS = 100, END = 150, ID = ''v1'', SVTYPE = [], SVLEN = 50,
                REF = [], ALT = [], SEQ = [], OTHER = []\<rparr>]\<rparr>
     ''s1'' None None head_cols
   = Inr \<lparr>columns = [''#CHROM'', ''POS'', ''END'', ''ID'', ''SVTYPE'', ''SVLEN''],
          rows = [\<lparr>CHROM = ''chr1'', POS = 100, END = 150, ID = ''v1'', SVTYPE = ''RGN'', SVLEN = 50,
                    REF = [], ALT = [], SEQ = [], OTHER = []\<rparr>]\<rparr>"
  by (simp add: read_variant_table_def head_cols_def read_csv_chrom_def default_svlen_def
      default_svtype_def order_variant_columns_def check_and_sort_def sort_values_def Let_def)

text \<open>
  The claim as first stated lets \<^verbatim>\<open>SVTYPE\<close> default to \<^verbatim>\<open>RGN\<close> whenever the column is absent.
  A table with neither \<^verbatim>\<open>SVLEN\<close> nor \<^verbatim>\<open>SVTYPE\<close> is rejected instead: the derivation of
  \<^verbatim>\<open>SVLEN\<close> comes first and asks for \<^verbatim>\<open>SVTYPE\<close>.
\<close>

theorem read_variant_table_svtype_absent_counterexample:
  "''SVTYPE'' \<notin> set [''#CHROM'', ''POS'', ''END'', ''ID'']
   \<and> read_variant_table
     \<lparr>columns = [''#CHROM'', ''POS'', ''END'', ''ID''],
      rows = [\<lparr>CHROM = ''chr1'', POS = 100, END = 150, ID = ''v1'', SVTYPE = [], SVLEN = 0,
                REF = [], ALT = [], SEQ = [], OTHER = []\<rparr>]\<rparr>
     ''s1'' None None head_cols
   = Inl (RuntimeError ''Missing SVLEN: Need both SVTYPE and END to set automatically'')"
  by (simp add: read_variant_table_def head_cols_def read_csv_chrom_def default_svlen_def Let_def)

theorem read_variant_table_defaults_witness:
  "read_variant_table
     \<lparr>columns = [''#CHROM'', ''POS'', ''END'', ''ID'', ''SVTYPE''],
      rows = [\<lparr>CHROM = ''chr1'', POS = 100, END = 150, ID = ''v1'', SVTYPE = ''DEL'', SVLEN = 0,
                REF = [], ALT = [], SEQ = [], OTHER = []\<rparr>,
              \<lparr>CHROM = ''chr1'', POS = 50, END = 80, ID = ''v0'', SVTYPE = ''DUP'', SVLEN = 0,
                REF = [], ALT = [], SEQ = [], OTHER = []\<rparr>]\<rparr>
     ''s1'' None None head_cols
   = Inr \<lparr>columns = [''#CHROM'', ''POS'', ''END'', ''ID'', ''SVTYPE'', ''SVLEN''],
          rows = [\<lparr>CHROM = ''chr1'', POS = 50, END = 80, ID = ''v0'', SVTYPE = ''DUP'', SVLEN = 30,
                    REF = [], ALT = [], SEQ = [], OTHER = []\<rparr>,
                  \<lparr>CHROM = ''chr1'', POS = 100, END = 150, ID = ''v1'', SVTYPE = ''DEL'', SVLEN = 50,
                    REF = [], ALT = [], SEQ = [], OTHER = []\<rparr>]\<rparr>
   \<and> list_all (\<lambda>r. SVLEN r = END r - POS r)
       (rows \<lparr>columns = [''#CHROM'', ''POS'', ''END'', ''ID'', ''SVTYPE'', ''SVLEN''],
          rows = [\<lparr>CHROM = ''chr1'', POS = 50, END = 80, ID = ''v0'', SVTYPE = ''DUP'', SVLEN = 30,
                    REF = [], ALT = [], SEQ = [], OTHER = []\<rparr>,
                  \<lparr>CHROM = ''chr1'', POS = 100, END = 150, ID = ''v1'', SVTYPE = ''DEL'', SVLEN = 50,
                    REF = [], ALT = [], SEQ = [], OTHER = []\<rparr>]\<rparr>)
   \<and> (\<exists>e. read_variant_table
     \<lparr>columns = [''#CHROM'', ''POS'', ''END'', ''ID'', ''SVTYPE''],
      rows = [\<lparr>CHROM = ''chr1'', POS = 100, END = 101, ID = ''v1'', SVTYPE = ''ins'', SVLEN = 0,
                REF = [], ALT = [], SEQ = [], OTHER = []\<rparr>]\<rparr>
     ''s1'' None None head_cols = Inl e)
   \<and> read_variant_table
     \<lparr>columns = [''#CHROM'', ''POS'', ''END'', ''ID'', ''SVLEN''],
      rows = [\<lparr>CHROM = ''chr1'', POS = 100, END = 150, ID = ''v1'', SVTYPE = [], SVLEN = 50,
                REF = [], ALT = [], SEQ = [], OTHER = []\<rparr>]\<rparr>
     ''s1'' None None head_cols
   = Inr \<lparr>columns = [''#CHROM'', ''POS'', ''END'', ''ID'', ''SVTYPE'', ''SVLEN''],
          rows = [\<lparr>CHROM = ''chr1'', POS = 100, END = 150, ID = ''v1'', SVTYPE = ''RGN'', SVLEN = 50,
                    REF = [], ALT = [], SEQ = [], OTHER = []\<rparr>]\<rparr>
   \<and> list_all (\<lambda>r. SVTYPE r = ''RGN'')
       (rows \<lparr>columns = [''#CHROM'', ''POS'', ''END'', ''ID'', ''SVTYPE'', ''SVLEN''],
          rows = [\<lparr>CHROM = ''chr1'', POS = 100, END = 150, ID = ''v1'', SVTYPE = ''RGN'', SVLEN = 50,
                    REF = [], ALT = [], SEQ = [], OTHER = []\<rparr>]\<rparr>)"
proof -
  let ?A = "\<lparr>columns = [''#CHROM'', ''POS'', ''END'', ''ID'', ''SVTYPE''],
      rows = [\<lparr>CHROM = ''chr1'', POS = 100, END = 150, ID = ''v1'', SVTYPE = ''DEL'', SVLEN = 0,
                REF = [], ALT = [], SEQ = [], OTHER = []\<rparr>,
              \<lparr>CHROM = ''chr1'', POS = 50, END = 80, ID = ''v0'', SVTYPE = ''DUP'', SVLEN = 0,
                REF = [], ALT = [], SEQ = [], OTHER = []\<rparr>]\<rparr>"
  let ?OA = "\<lparr>columns = [''#CHROM'', ''POS'', ''END'', ''ID'', ''SVTYPE'', ''SVLEN''],
          rows = [\<lparr>CHROM = ''chr1'', POS = 50, END = 80, ID = ''v0'', SVTYPE = ''DUP'', SVLEN = 30,
                    REF = [], ALT = [], SEQ = [], OTHER = []\<rparr>,
                  \<lparr>CHROM = ''chr1'', POS = 100, END = 150, ID = ''v1'', SVTYPE = ''DEL'', SVLEN = 50,
                    REF = [], ALT = [], SEQ = [], OTHER = []\<rparr>]\<rparr>"
  let ?B = "\<lparr>columns = [''#CHROM'', ''POS'', ''END'', ''ID'', ''SVTYPE''],
      rows = [\<lparr>CHROM = ''chr1'', POS = 100, END = 101, ID = ''v1'', SVTYPE = ''ins'', SVLEN = 0,
                REF = [], ALT = [], SEQ = [], OTHER = []\<rparr>]\<rparr>"
  let ?C = "\<lparr>columns = [''#CHROM'', ''POS'', ''END'', ''ID'', ''SVLEN''],
      rows = [\<lparr>CHROM = ''chr1'', POS = 100, END = 150, ID = ''v1'', SVTYPE = [], SVLEN = 50,
                REF = [], ALT = [], SEQ = [], OTHER = []\<rparr>]\<rparr>"
  let ?OC = "\<lparr>columns = [''#CHROM'', ''POS'', ''END'', ''ID'', ''SVTYPE'', ''SVLEN''],
          rows = [\<lparr>CHROM = ''chr1'', POS = 100, END = 150, ID = ''v1'', SVTYPE = ''RGN'', SVLEN = 50,
                    REF = [], ALT = [], SEQ = [], OTHER = []\<rparr>]\<rparr>"
  have a: "''SVLEN'' \<notin> set (columns ?A)" by simp
  from read_variant_table_defaults [where bed_file = ?A and sample_name = "''s1''"
      and subset_chrom = None and fa_file = None and col_list = head_cols and out = ?OA,
      THEN conjunct1, THEN mp, OF conjI [OF a read_variant_table_svlen_example]]
  have "\<forall>r\<in>set (rows ?OA). SVLEN r = int64 (END r - POS r)
         \<and> (- (2 ^ 63) \<le> END r - POS r \<and> END r - POS r < 2 ^ 63 \<longrightarrow> SVLEN r = END r - POS r)" .
  then have la: "list_all (\<lambda>r. SVLEN r = END r - POS r) (rows ?OA)"
    by simp
  have b: "''SVLEN'' \<notin> set (columns ?B)
      \<and> (\<exists>r\<in>set (rows (read_csv_chrom ?B None (\<lambda>col. True))). upper (SVTYPE r) = ''INS'')"
    by (simp add: read_csv_chrom_def upper_def upper_char_def)
  from read_variant_table_defaults [where bed_file = ?B and sample_name = "''s1''"
      and subset_chrom = None and fa_file = None and col_list = head_cols,
      THEN conjunct2, THEN conjunct1, THEN mp, OF b]
  have lb: "\<exists>e. read_variant_table ?B ''s1'' None None head_cols = Inl e" .
  have c: "''SVTYPE'' \<notin> set (columns ?C)" by simp
  from read_variant_table_defaults [where bed_file = ?C and sample_name = "''s1''"
      and subset_chrom = None and fa_file = None and col_list = head_cols and out = ?OC,
      THEN conjunct2, THEN conjunct2, THEN conjunct1, THEN mp,
      OF conjI [OF c read_variant_table_svtype_example], THEN conjunct2]
  have "\<forall>r\<in>set (rows ?OC). SVTYPE r = ''RGN''" .
  then have lc: "list_all (\<lambda>r. SVTYPE r = ''RGN'') (rows ?OC)"
    by (simp only: list_all_iff)
  from read_variant_table_svlen_example la lb read_variant_table_svtype_example lc
  show ?thesis by (intro conjI)
qed

end
